theory Spec2Isabelle
  imports Complex_Main
begin

section \<open>Numbers\<close>

text \<open>
  A JavaScript number is a double. The arithmetic on sample positions (the tracker, the
  timestamp of the ramp) is rounded as the source's operations are: \<open>dbl\<close> rounds a real
  to the nearest double, ties to even, for the precision \<open>p\<close> = 53 and the least exponent
  \<open>emin\<close> = -1022 of a normal number (below it the spacing of the subnormal numbers is
  kept). An assignment to an element of a \<open>Float32Array\<close> rounds to single precision
  (\<open>single\<close>, with precision 24 and least exponent -126); \<open>fround\<close> is the element it
  leaves, with the two infinities for a result beyond the largest finite value. The values of the modulators, phases and
  frequencies are computed on reals; their rounding to the nearest double is outside the
  model, as are \<open>NaN\<close> and the overflow of a double.
\<close>

definition round_even :: "real \<Rightarrow> int" where
  "round_even y =
     (let f = \<lfloor>y\<rfloor>; d = y - of_int f
      in if d < 1 / 2 then f
         else if 1 / 2 < d then f + 1
         else if even f then f else f + 1)"

definition binary_round :: "int \<Rightarrow> int \<Rightarrow> real \<Rightarrow> real" where
  "binary_round p emin x =
     (if x = 0 then 0
      else let e = max \<lfloor>log 2 \<bar>x\<bar>\<rfloor> emin;
               q = 2 powi (e - p + 1)
           in q * of_int (round_even (x / q)))"

definition dbl :: "real \<Rightarrow> real" where
  "dbl x = binary_round 53 (- 1022) x"

datatype float32 = Finite real | PlusInfinity | MinusInfinity

definition single :: "real \<Rightarrow> real" where
  "single x = binary_round 24 (- 126) x"

definition fround :: "real \<Rightarrow> float32" where
  "fround x =
     (let r = single x
      in if 2 ^ 128 \<le> r then PlusInfinity
         else if r \<le> - (2 ^ 128) then MinusInfinity
         else Finite r)"

text \<open>The operators \<open>+\<close>, \<open>-\<close> and \<open>/\<close> on doubles.\<close>

definition js_add :: "real \<Rightarrow> real \<Rightarrow> real" where
  "js_add x y = dbl (x + y)"

definition js_sub :: "real \<Rightarrow> real \<Rightarrow> real" where
  "js_sub x y = dbl (x - y)"

definition js_div :: "real \<Rightarrow> real \<Rightarrow> real" where
  "js_div x y = dbl (x / y)"

section \<open>EventTimestampTracker\<close>

text \<open>
  Sample positions and the interval are numbers, with no check that they are integers.
  The field \<open>lastSample\<close> is \<open>null\<close> until the first event has been generated.
\<close>

record tracker =
  lastSample :: "real option"
  interval :: real

definition new_tracker :: "real \<Rightarrow> tracker" where
  "new_tracker eventInterval = \<lparr>lastSample = None, interval = eventInterval\<rparr>"

definition setInterval :: "real \<Rightarrow> tracker \<Rightarrow> tracker" where
  "setInterval iv t = t\<lparr>interval := iv\<rparr>"

definition reset :: "tracker \<Rightarrow> tracker" where
  "reset t = t\<lparr>lastSample := None\<rparr>"

definition firstSample :: "tracker \<Rightarrow> real \<Rightarrow> real" where
  "firstSample t blockStart =
     (case lastSample t of None \<Rightarrow> blockStart | Some l \<Rightarrow> js_add l (interval t))"

text \<open>
  The \<open>while (sample <= targetSample)\<close> loop of the generator \<open>generateSamples\<close>, consumed
  to its end: the yielded timestamps are collected in \<open>acc\<close>. When the loop never ends
  (an interval that is not positive, or one that rounding absorbs) the value is \<open>None\<close>.
  The assignment to \<open>lastSample\<close> follows the loop.
\<close>

partial_function (option) gen_loop ::
  "real \<Rightarrow> real \<Rightarrow> real \<Rightarrow> real option \<Rightarrow> real list \<Rightarrow> (real list \<times> real option) option" where
  "gen_loop iv targetSample sample lastGenerated acc =
     (if sample \<le> targetSample
      then gen_loop iv targetSample (js_add sample iv) (Some sample) (acc @ [sample])
      else Some (acc, lastGenerated))"

definition generateSamples :: "tracker \<Rightarrow> real \<Rightarrow> real \<Rightarrow> (real list \<times> tracker) option" where
  "generateSamples t blockStart targetSample =
     (case gen_loop (interval t) targetSample (firstSample t blockStart) (lastSample t) [] of
        None \<Rightarrow> None
      | Some (ys, lastGenerated) \<Rightarrow>
          Some (ys, if lastGenerated \<noteq> lastSample t then t\<lparr>lastSample := lastGenerated\<rparr> else t))"

text \<open>
  The generator is lazy: a consumer that asks for \<open>n\<close> values and then abandons it
  (\<open>break\<close> in a \<open>for ... of\<close> loop) runs the body up to the \<open>n\<close>-th \<open>yield\<close> only. The
  second component of \<open>take_loop\<close> is \<open>None\<close> when the generator was abandoned before
  its loop ended; the assignment to \<open>lastSample\<close> after the loop is then never reached.
\<close>

fun take_loop ::
  "nat \<Rightarrow> real \<Rightarrow> real \<Rightarrow> real \<Rightarrow> real option \<Rightarrow> real list \<Rightarrow> real list \<times> real option option" where
  "take_loop 0 iv targetSample sample lastGenerated acc = (acc, None)"
| "take_loop (Suc n) iv targetSample sample lastGenerated acc =
     (if sample \<le> targetSample
      then take_loop n iv targetSample (js_add sample iv) (Some sample) (acc @ [sample])
      else (acc, Some lastGenerated))"

definition generateSamples_take :: "nat \<Rightarrow> tracker \<Rightarrow> real \<Rightarrow> real \<Rightarrow> real list \<times> tracker" where
  "generateSamples_take n t blockStart targetSample =
     (case take_loop n (interval t) targetSample (firstSample t blockStart) (lastSample t) [] of
        (ys, None) \<Rightarrow> (ys, t)
      | (ys, Some lastGenerated) \<Rightarrow>
          (ys, if lastGenerated \<noteq> lastSample t then t\<lparr>lastSample := lastGenerated\<rparr> else t))"

text \<open>\<open>countEvents\<close> returns the count together with the tracker it leaves behind.\<close>

definition countEvents :: "tracker \<Rightarrow> real \<Rightarrow> real \<Rightarrow> real \<times> tracker" where
  "countEvents t blockStart targetSample =
     (let startSample = firstSample t blockStart in
      if startSample > targetSample then (0, t)
      else (js_add (of_int \<lfloor>js_div (js_sub targetSample startSample) (interval t)\<rfloor>) 1, t))"

text \<open>A sequence of fully consumed \<open>generateSamples\<close> calls on one tracker.\<close>

fun run_calls :: "tracker \<Rightarrow> (real \<times> real) list \<Rightarrow> (real list list \<times> tracker) option" where
  "run_calls t [] = Some ([], t)"
| "run_calls t ((blockStart, targetSample) # cs) =
     (case generateSamples t blockStart targetSample of
        None \<Rightarrow> None
      | Some (ys, t') \<Rightarrow>
          (case run_calls t' cs of None \<Rightarrow> None | Some (yss, t'') \<Rightarrow> Some (ys # yss, t'')))"

section \<open>SineEventScheduler\<close>

text \<open>
  The two buffers are \<open>Float32Array\<close>s of fixed length: an assignment to an element
  rounds the number to single precision, an assignment at an index outside the array is
  ignored, and the array keeps its length.
\<close>

definition store :: "float32 list \<Rightarrow> nat \<Rightarrow> real \<Rightarrow> float32 list" where
  "store buf i v = (if i < length buf then buf[i := fround v] else buf)"

record scheduler =
  ampBuffer :: "float32 list"
  freqBuffer :: "float32 list"
  ampOffset :: nat
  freqOffset :: nat
  currentSineId :: "real option"
  ampCountIdx :: nat
  freqCountIdx :: nat
  currentAmpCount :: nat
  currentFreqCount :: nat
  maxEventsPerSine :: nat

definition bufferSize :: "nat \<Rightarrow> nat \<Rightarrow> nat" where
  "bufferSize maxSines maxEvents = maxSines * (3 + maxEvents * 2)"

definition new_scheduler :: "nat \<Rightarrow> nat \<Rightarrow> scheduler" where
  "new_scheduler maxSines maxEvents =
     \<lparr>ampBuffer = replicate (bufferSize maxSines maxEvents) (Finite 0),
      freqBuffer = replicate (bufferSize maxSines maxEvents) (Finite 0),
      ampOffset = 0, freqOffset = 0, currentSineId = None,
      ampCountIdx = 0, freqCountIdx = 0, currentAmpCount = 0, currentFreqCount = 0,
      maxEventsPerSine = maxEvents\<rparr>"

definition beginFrame :: "scheduler \<Rightarrow> scheduler" where
  "beginFrame s = s\<lparr>ampOffset := 0, freqOffset := 0, currentSineId := None\<rparr>"

definition override_flag :: "bool \<Rightarrow> real" where
  "override_flag override = (if override then 1 else 0)"

definition beginSine :: "real \<Rightarrow> bool \<Rightarrow> scheduler \<Rightarrow> scheduler" where
  "beginSine sineId override s =
     s\<lparr>currentSineId := Some sineId,
       ampBuffer := store (store (ampBuffer s) (ampOffset s) sineId)
                      (ampOffset s + 2) (override_flag override),
       ampCountIdx := ampOffset s + 1,
       ampOffset := ampOffset s + 3,
       currentAmpCount := 0,
       freqBuffer := store (store (freqBuffer s) (freqOffset s) sineId)
                       (freqOffset s + 2) (override_flag override),
       freqCountIdx := freqOffset s + 1,
       freqOffset := freqOffset s + 3,
       currentFreqCount := 0\<rparr>"

definition addAmplitudeEvent :: "real \<Rightarrow> real \<Rightarrow> scheduler \<Rightarrow> bool \<times> scheduler" where
  "addAmplitudeEvent sample v s =
     (if currentAmpCount s \<ge> maxEventsPerSine s then (False, s)
      else (True,
            s\<lparr>ampBuffer := store (store (ampBuffer s) (ampOffset s) sample) (ampOffset s + 1) v,
              ampOffset := ampOffset s + 2,
              currentAmpCount := currentAmpCount s + 1\<rparr>))"

definition addFrequencyEvent :: "real \<Rightarrow> real \<Rightarrow> scheduler \<Rightarrow> bool \<times> scheduler" where
  "addFrequencyEvent sample freqHz s =
     (if currentFreqCount s \<ge> maxEventsPerSine s then (False, s)
      else (True,
            s\<lparr>freqBuffer := store (store (freqBuffer s) (freqOffset s) sample) (freqOffset s + 1) freqHz,
              freqOffset := freqOffset s + 2,
              currentFreqCount := currentFreqCount s + 1\<rparr>))"

definition endSine :: "scheduler \<Rightarrow> scheduler" where
  "endSine s =
     s\<lparr>ampBuffer := store (ampBuffer s) (ampCountIdx s) (real (currentAmpCount s)),
       freqBuffer := store (freqBuffer s) (freqCountIdx s) (real (currentFreqCount s)),
       currentSineId := None\<rparr>"

text \<open>\<open>subarray(0, offset)\<close> clamps its end to the length of the array, as \<open>take\<close> does.\<close>

definition getAmplitudeBuffer :: "scheduler \<Rightarrow> float32 list" where
  "getAmplitudeBuffer s = take (ampOffset s) (ampBuffer s)"


definition hasAmplitudeEvents :: "scheduler \<Rightarrow> bool" where
  "hasAmplitudeEvents s = (ampOffset s > 0)"

definition hasFrequencyEvents :: "scheduler \<Rightarrow> bool" where
  "hasFrequencyEvents s = (freqOffset s > 0)"

text \<open>
  Call sequences on one scheduler. A method without a return value has the result \<open>None\<close>.
\<close>

datatype sched_op =
    BeginFrame
  | BeginSine real bool
  | AddAmplitudeEvent real real
  | AddFrequencyEvent real real
  | EndSine

fun exec :: "sched_op \<Rightarrow> scheduler \<Rightarrow> bool option \<times> scheduler" where
  "exec BeginFrame s = (None, beginFrame s)"
| "exec (BeginSine sineId override) s = (None, beginSine sineId override s)"
| "exec (AddAmplitudeEvent sample v) s = (case addAmplitudeEvent sample v s of (r, s') \<Rightarrow> (Some r, s'))"
| "exec (AddFrequencyEvent sample f) s = (case addFrequencyEvent sample f s of (r, s') \<Rightarrow> (Some r, s'))"
| "exec EndSine s = (None, endSine s)"

fun run :: "sched_op list \<Rightarrow> scheduler \<Rightarrow> bool option list \<times> scheduler" where
  "run [] s = ([], s)"
| "run (c # cs) s = (case exec c s of (r, s') \<Rightarrow> (case run cs s' of (rs, s'') \<Rightarrow> (r # rs, s'')))"

text \<open>
  The indices at which one call stores into the amplitude buffer and into the frequency
  buffer, in the order of the source's assignments (\<open>beginSine\<close> leaves the count field
  for \<open>endSine\<close>), whether or not the index lies inside the array.
\<close>

fun amp_stores :: "sched_op \<Rightarrow> scheduler \<Rightarrow> nat list" where
  "amp_stores BeginFrame s = []"
| "amp_stores (BeginSine sineId override) s = [ampOffset s, ampOffset s + 2]"
| "amp_stores (AddAmplitudeEvent sample v) s =
     (if currentAmpCount s \<ge> maxEventsPerSine s then [] else [ampOffset s, ampOffset s + 1])"
| "amp_stores (AddFrequencyEvent sample f) s = []"
| "amp_stores EndSine s = [ampCountIdx s]"

fun freq_stores :: "sched_op \<Rightarrow> scheduler \<Rightarrow> nat list" where
  "freq_stores BeginFrame s = []"
| "freq_stores (BeginSine sineId override) s = [freqOffset s, freqOffset s + 2]"
| "freq_stores (AddAmplitudeEvent sample v) s = []"
| "freq_stores (AddFrequencyEvent sample f) s =
     (if currentFreqCount s \<ge> maxEventsPerSine s then [] else [freqOffset s, freqOffset s + 1])"
| "freq_stores EndSine s = [freqCountIdx s]"

fun run_amp_stores :: "sched_op list \<Rightarrow> scheduler \<Rightarrow> nat list" where
  "run_amp_stores [] s = []"
| "run_amp_stores (c # cs) s = amp_stores c s @ run_amp_stores cs (snd (exec c s))"

fun run_freq_stores :: "sched_op list \<Rightarrow> scheduler \<Rightarrow> nat list" where
  "run_freq_stores [] s = []"
| "run_freq_stores (c # cs) s = freq_stores c s @ run_freq_stores cs (snd (exec c s))"

section \<open>PhaseAccumulator\<close>

text \<open>
  Numbers are modelled as reals. The remainder operator \<open>%\<close> takes the sign of its
  dividend: \<open>x % y = x - y * trunc (x / y)\<close>, where \<open>trunc\<close> rounds towards zero.
\<close>

definition js_trunc :: "real \<Rightarrow> int" where
  "js_trunc q = (if 0 \<le> q then \<lfloor>q\<rfloor> else - \<lfloor>- q\<rfloor>)"

definition js_rem :: "real \<Rightarrow> real \<Rightarrow> real" where
  "js_rem x y = x - y * of_int (js_trunc (x / y))"

record phase_accumulator =
  phase :: real
  rate :: real
  pa_lastSample :: real

definition new_phase_accumulator :: "real \<Rightarrow> phase_accumulator" where
  "new_phase_accumulator r = \<lparr>phase = 0, rate = r, pa_lastSample = 0\<rparr>"

definition setRate :: "real \<Rightarrow> phase_accumulator \<Rightarrow> phase_accumulator" where
  "setRate r pa = pa\<lparr>rate := r\<rparr>"

definition advance :: "real \<Rightarrow> real \<Rightarrow> phase_accumulator \<Rightarrow> real \<times> phase_accumulator" where
  "advance currentSample sampleRate pa =
     (let delta = currentSample - pa_lastSample pa;
          pa1 = (if delta > 0
                 then pa\<lparr>phase := js_rem (phase pa + (delta / sampleRate) * rate pa) 1\<rparr>
                 else pa);
          pa2 = pa1\<lparr>pa_lastSample := currentSample\<rparr>
      in (phase pa2, pa2))"

text \<open>\<open>sinAt\<close> returns its value together with the accumulator it leaves behind.\<close>

definition sinAt :: "real \<Rightarrow> real \<Rightarrow> real \<Rightarrow> phase_accumulator \<Rightarrow> real \<times> phase_accumulator" where
  "sinAt sampleOffset sampleRate phaseOffset pa =
     (let futurePhase = js_rem (phase pa + (sampleOffset / sampleRate) * rate pa + phaseOffset) 1
      in (sin (2 * pi * futurePhase), pa))"

definition getPhase :: "phase_accumulator \<Rightarrow> real" where
  "getPhase pa = phase pa"

definition resetPhase :: "real \<Rightarrow> phase_accumulator \<Rightarrow> phase_accumulator" where
  "resetPhase p pa = pa\<lparr>phase := js_rem p 1\<rparr>"

text \<open>Call sequences on one accumulator, with the value each call returns.\<close>

datatype pa_op =
    SetRate real
  | Advance real real
  | SinAt real real real
  | ResetPhase real

fun pa_exec :: "pa_op \<Rightarrow> phase_accumulator \<Rightarrow> real option \<times> phase_accumulator" where
  "pa_exec (SetRate r) pa = (None, setRate r pa)"
| "pa_exec (Advance currentSample sampleRate) pa =
     (case advance currentSample sampleRate pa of (v, pa') \<Rightarrow> (Some v, pa'))"
| "pa_exec (SinAt sampleOffset sampleRate phaseOffset) pa =
     (case sinAt sampleOffset sampleRate phaseOffset pa of (v, pa') \<Rightarrow> (Some v, pa'))"
| "pa_exec (ResetPhase p) pa = (None, resetPhase p pa)"

fun pa_run :: "pa_op list \<Rightarrow> phase_accumulator \<Rightarrow> phase_accumulator" where
  "pa_run [] pa = pa"
| "pa_run (c # cs) pa = pa_run cs (snd (pa_exec c pa))"

section \<open>AdditiveSynthProcessor: state and modulators\<close>

definition NUM_PARTIALS :: nat where
  "NUM_PARTIALS = 32"

definition EVENT_INTERVAL :: int where
  "EVENT_INTERVAL = 128"

definition MAX_EVENTS_PER_SINE :: nat where
  "MAX_EVENTS_PER_SINE = 8"

text \<open>
  The state of the processor, with the fields of its constructor. The arrays that only
  feed the visualisation messages (\<open>...ValuesViz\<close>, \<open>vizUpdateCounter\<close>,
  \<open>vizUpdateInterval\<close>) are left out. \<open>fallingHarmonic\<close> holds the \<open>pos\<close> of the object
  of that name.
\<close>

record processor =
  ready :: bool
  started :: bool
  sineIds :: "real list"
  baseFreq :: real
  lfoEnabled :: bool
  lfoAmount :: real
  lfoOffset :: real
  lfo :: phase_accumulator
  randomEnabled :: bool
  randomChangeRate :: real
  randomValues :: "real list"
  lowpassEnabled :: bool
  lowpassCutoff :: real
  lowpassSlope :: real
  lowpassResonance :: real
  highpassEnabled :: bool
  highpassCutoff :: real
  highpassSlope :: real
  highpassResonance :: real
  combEnabled :: bool
  combSpacing :: real
  combPhase :: real
  pwmEnabled :: bool
  pwmDuty :: real
  wavefolderEnabled :: bool
  wavefolderFold :: real
  wavefolderAsymmetry :: real
  barberPoleEnabled :: bool
  barberPoleDensity :: real
  barberPoleSpeed :: real
  barberPoleQ :: real
  barberPolePhase :: real
  fallingEnabled :: bool
  fallingProbability :: real
  fallingHarmonic :: nat
  fallingLanded :: "nat set"
  vowelEnabled :: bool
  vowelMorph :: real
  vowelQ :: real
  vowelFormants :: "real list list"
  keyboardPitchEnabled :: bool
  keyboardPitchRatio :: real
  prevKeyboardPitchRatio :: real
  keyboardGateEnabled :: bool
  keyboardGateOpen :: bool
  prevKeyboardGateOpen :: bool
  needsImmediateEvent :: bool
  KEYBOARD_RAMP_SAMPLES :: real
  scheduler :: scheduler
  lastAmpEventSample :: "real option list"
  lastFreqEventSample :: "real option list"

text \<open>
  The constructor; \<open>wasm_ok\<close> says whether the initialisation of the renderer inside the
  \<open>try\<close> block succeeded.
\<close>

definition new_processor :: "bool \<Rightarrow> processor" where
  "new_processor wasm_ok =
     \<lparr>ready = wasm_ok, started = False, sineIds = [], baseFreq = 110,
      lfoEnabled = True, lfoAmount = 0.5, lfoOffset = 0, lfo = new_phase_accumulator 1,
      randomEnabled = True, randomChangeRate = 2, randomValues = replicate NUM_PARTIALS 1,
      lowpassEnabled = False, lowpassCutoff = 10, lowpassSlope = 2, lowpassResonance = 0.5,
      highpassEnabled = False, highpassCutoff = 8, highpassSlope = 2, highpassResonance = 0.5,
      combEnabled = False, combSpacing = 4, combPhase = 0,
      pwmEnabled = False, pwmDuty = 0.32,
      wavefolderEnabled = False, wavefolderFold = 2.5, wavefolderAsymmetry = 0,
      barberPoleEnabled = False, barberPoleDensity = 6, barberPoleSpeed = 3, barberPoleQ = 2,
      barberPolePhase = 0,
      fallingEnabled = False, fallingProbability = 0.1, fallingHarmonic = 31, fallingLanded = {},
      vowelEnabled = False, vowelMorph = 0.5, vowelQ = 12,
      vowelFormants = [[730, 1090, 2440], [660, 1700, 2400], [440, 1220, 2600],
                       [400, 800, 2600], [350, 600, 2700]],
      keyboardPitchEnabled = False, keyboardPitchRatio = 1, prevKeyboardPitchRatio = 1,
      keyboardGateEnabled = False, keyboardGateOpen = True, prevKeyboardGateOpen = True,
      needsImmediateEvent = False, KEYBOARD_RAMP_SAMPLES = 8,
      scheduler = new_scheduler NUM_PARTIALS MAX_EVENTS_PER_SINE,
      lastAmpEventSample = [], lastFreqEventSample = []\<rparr>"

text \<open>
  The functions of \<open>Math\<close> on reals. Where the source's \<open>Math.pow\<close> gives \<open>Infinity\<close>
  (base zero, negative exponent) or \<open>NaN\<close> (negative base, fractional exponent) there
  is no real to return: the 0 of the last branches of \<open>math_pow\<close> is not the value of
  the source, and neither is the quotient of a division by zero. \<open>pow_defined\<close> is the
  domain on which \<open>math_pow\<close> is the source's function; a statement about the values
  of the modulators is about the source only where every enabled modulator is evaluated
  inside this domain and divides by no zero (\<open>modulators_defined\<close> below).
  \<open>Math.log2\<close> is \<open>log 2\<close>, meaningful for positive arguments. \<open>Math.round\<close> rounds a
  half upwards.
\<close>

definition math_pow :: "real \<Rightarrow> real \<Rightarrow> real" where
  "math_pow x y =
     (if y = 0 then 1
      else if 0 < x then x powr y
      else if x = 0 then 0
      else if y = of_int \<lfloor>y\<rfloor> then x powi \<lfloor>y\<rfloor>
      else 0)"

definition pow_defined :: "real \<Rightarrow> real \<Rightarrow> bool" where
  "pow_defined x y = (y = 0 \<or> 0 < x \<or> (x = 0 \<and> 0 < y) \<or> (x < 0 \<and> y = of_int \<lfloor>y\<rfloor>))"

definition math_round :: "real \<Rightarrow> int" where
  "math_round x = \<lfloor>x + 1 / 2\<rfloor>"

definition math_log2 :: "real \<Rightarrow> real" where
  "math_log2 x = log 2 x"

text \<open>
  The evaluators. \<open>sr\<close> is the global \<open>sampleRate\<close> of the audio worklet scope;
  \<open>partialNum\<close> is the harmonic number (from 1), \<open>partialIndex\<close> the index (from 0).
\<close>

definition evaluateLfo :: "real \<Rightarrow> processor \<Rightarrow> real \<Rightarrow> real \<Rightarrow> real" where
  "evaluateLfo sr st sampleOffset phaseOffset =
     (if \<not> lfoEnabled st then 1
      else let lfoSin = fst (sinAt sampleOffset sr phaseOffset (lfo st))
           in lfoOffset st + lfoAmount st * lfoSin)"

definition evaluateRandom :: "processor \<Rightarrow> nat \<Rightarrow> real" where
  "evaluateRandom st partialIndex = (if randomEnabled st then randomValues st ! partialIndex else 1)"

definition evaluateLowpass :: "processor \<Rightarrow> real \<Rightarrow> real" where
  "evaluateLowpass st partialNum =
     (if \<not> lowpassEnabled st then 1
      else let lp = 1 / (1 + math_pow (partialNum / lowpassCutoff st) (2 * lowpassSlope st));
               res = lowpassResonance st *
                     exp (- 0.5 * math_pow ((partialNum - lowpassCutoff st) / (lowpassCutoff st * 0.1)) 2)
           in lp + res)"

definition evaluateHighpass :: "processor \<Rightarrow> real \<Rightarrow> real" where
  "evaluateHighpass st partialNum =
     (if \<not> highpassEnabled st then 1
      else let hp = math_pow (partialNum / highpassCutoff st) (2 * highpassSlope st) /
                    (1 + math_pow (partialNum / highpassCutoff st) (2 * highpassSlope st));
               res = highpassResonance st *
                     exp (- 0.5 * math_pow ((partialNum - highpassCutoff st) / (highpassCutoff st * 0.1)) 2)
           in hp + res)"

definition evaluateComb :: "processor \<Rightarrow> real \<Rightarrow> real" where
  "evaluateComb st partialNum =
     (if \<not> combEnabled st then 1
      else 0.5 + 0.5 * cos (partialNum * pi / combSpacing st + combPhase st))"

definition evaluatePwm :: "processor \<Rightarrow> real \<Rightarrow> real" where
  "evaluatePwm st partialNum =
     (if \<not> pwmEnabled st then 1
      else let d = js_rem (js_rem (pwmDuty st) 1 + 1) 1
           in (2 / (partialNum * pi)) * sin (partialNum * pi * d))"

definition evaluateWavefolder :: "processor \<Rightarrow> real \<Rightarrow> real" where
  "evaluateWavefolder st partialNum =
     (if \<not> wavefolderEnabled st then 1
      else let normalizedHarmonic = partialNum / 32;
               foldAmount = wavefolderFold st * (1 + normalizedHarmonic * wavefolderAsymmetry st);
               foldPattern = sin (partialNum * foldAmount) * cos (partialNum / foldAmount);
               emphasis = 0.5 + 0.5 * sin (partialNum * pi / foldAmount)
           in foldPattern * emphasis)"

definition evaluateBarberPole :: "processor \<Rightarrow> nat \<Rightarrow> real" where
  "evaluateBarberPole st partialIndex =
     (if \<not> barberPoleEnabled st then 1
      else let pos = (real partialIndex / barberPoleDensity st) + barberPolePhase st;
               frac = pos - of_int (math_round pos);
               stripe = max 0 (cos (pi * frac))
           in math_pow stripe (barberPoleQ st))"

definition evaluateFalling :: "processor \<Rightarrow> nat \<Rightarrow> real" where
  "evaluateFalling st partialIndex =
     (if \<not> fallingEnabled st then 1
      else if partialIndex \<in> fallingLanded st \<or> fallingHarmonic st = partialIndex then 1
      else 0)"

definition evaluateVowel :: "processor \<Rightarrow> real \<Rightarrow> real" where
  "evaluateVowel st partialNum =
     (if \<not> vowelEnabled st then 1
      else let morph = max 0 (min 1 (vowelMorph st));
               idx = morph * real (length (vowelFormants st) - 1);
               idxA = nat \<lfloor>idx\<rfloor>;
               idxB = min (idxA + 1) (length (vowelFormants st) - 1);
               t = idx - real idxA;
               formants = map (\<lambda>fi. vowelFormants st ! idxA ! fi * (1 - t)
                                     + vowelFormants st ! idxB ! fi * t) [0, 1, 2];
               harmonicFreq = baseFreq st * partialNum
           in foldl (\<lambda>amp f. amp + exp (- vowelQ st * math_log2 (harmonicFreq / f)
                                                     * math_log2 (harmonicFreq / f)))
                    0 formants)"

definition evaluateKeyboardGate :: "processor \<Rightarrow> real" where
  "evaluateKeyboardGate st =
     (if \<not> keyboardGateEnabled st then 1 else if keyboardGateOpen st then 1 else 0)"

definition evaluateKeyboardPitch :: "processor \<Rightarrow> real" where
  "evaluateKeyboardPitch st =
     (if \<not> keyboardPitchEnabled st then 1 else keyboardPitchRatio st)"

text \<open>
  The amplitude of one event of partial \<open>i\<close> in the scheduling loop of \<open>process\<close>:
  the product of all modulators in the order of the source, and its scaling by 16.
\<close>

definition combinedAmplitude :: "real \<Rightarrow> processor \<Rightarrow> real \<Rightarrow> nat \<Rightarrow> real" where
  "combinedAmplitude sr st sampleOffset i =
     (let partialNum = real (i + 1);
          phaseOffset = real i / real NUM_PARTIALS;
          lfoValue = evaluateLfo sr st sampleOffset phaseOffset;
          randomValue = evaluateRandom st i;
          lowpassValue = evaluateLowpass st partialNum;
          highpassValue = evaluateHighpass st partialNum;
          combValue = evaluateComb st partialNum;
          pwmValue = evaluatePwm st partialNum;
          wavefolderValue = evaluateWavefolder st partialNum;
          barberPoleValue = evaluateBarberPole st i;
          fallingValue = evaluateFalling st i;
          vowelValue = evaluateVowel st partialNum;
          keyboardGateValue = evaluateKeyboardGate st
      in lfoValue * randomValue * lowpassValue * highpassValue * combValue * pwmValue
           * wavefolderValue * barberPoleValue * fallingValue * vowelValue * keyboardGateValue)"



section \<open>AdditiveSynthProcessor: control messages\<close>

text \<open>
  The payload of a message, as far as the handlers look at it: they apply \<open>Number\<close> or
  \<open>Boolean\<close> to it. \<open>Number\<close> gives \<open>None\<close> for \<open>NaN\<close>. Infinite numbers have no
  real value and are outside the model.
\<close>

datatype js_value = JNum real | JNaN | JBool bool | JNull | JUndefined

fun toNumber :: "js_value \<Rightarrow> real option" where
  "toNumber (JNum x) = Some x"
| "toNumber JNaN = None"
| "toNumber (JBool b) = Some (if b then 1 else 0)"
| "toNumber JNull = Some 0"
| "toNumber JUndefined = None"

fun toBoolean :: "js_value \<Rightarrow> bool" where
  "toBoolean (JNum x) = (x \<noteq> 0)"
| "toBoolean JNaN = False"
| "toBoolean (JBool b) = b"
| "toBoolean JNull = False"
| "toBoolean JUndefined = False"

text \<open>\<open>Number(v) || d\<close>: the number, unless it is \<open>NaN\<close> or zero.\<close>

definition number_or :: "js_value \<Rightarrow> real \<Rightarrow> real" where
  "number_or v d = (case toNumber v of None \<Rightarrow> d | Some x \<Rightarrow> if x = 0 then d else x)"

text \<open>
  \<open>startSynth\<close>: \<open>ids\<close> is what the renderer's \<open>add_sines\<close> returns and \<open>rnd i\<close> the
  value of the \<open>i\<close>-th call of \<open>Math.random\<close>, a number from 0 up to but not including 1.
  \<open>randomValues\<close> is a \<open>Float32Array\<close>: the assignment rounds to single precision.
\<close>

definition startSynth :: "real list \<Rightarrow> (nat \<Rightarrow> real) \<Rightarrow> processor \<Rightarrow> processor" where
  "startSynth ids rnd st =
     st\<lparr>sineIds := ids,
        lastAmpEventSample := replicate NUM_PARTIALS None @ drop NUM_PARTIALS (lastAmpEventSample st),
        lastFreqEventSample := replicate NUM_PARTIALS None @ drop NUM_PARTIALS (lastFreqEventSample st),
        randomValues := map (\<lambda>i. if i < NUM_PARTIALS then single (rnd i * 2 - 1) else randomValues st ! i)
                            [0..<length (randomValues st)],
        started := True\<rparr>"

text \<open>The dispatch map of the handlers, as the list of its entries; the keys are distinct.\<close>

definition messageHandlers ::
  "real list \<Rightarrow> (nat \<Rightarrow> real) \<Rightarrow> (string \<times> (js_value \<Rightarrow> processor \<Rightarrow> processor)) list" where
  "messageHandlers ids rnd =
     [(''start'', \<lambda>v st. if \<not> started st \<and> ready st then startSynth ids rnd st else st),
      (''set-base-freq'', \<lambda>v st. st\<lparr>baseFreq := number_or v 110\<rparr>),
      (''set-lfo-enabled'', \<lambda>v st. st\<lparr>lfoEnabled := toBoolean v\<rparr>),
      (''set-lfo-rate'', \<lambda>v st. st\<lparr>lfo := setRate (number_or v 1) (lfo st)\<rparr>),
      (''set-lfo-amount'', \<lambda>v st. st\<lparr>lfoAmount := number_or v 0\<rparr>),
      (''set-lfo-offset'', \<lambda>v st. st\<lparr>lfoOffset := number_or v 0\<rparr>),
      (''set-random-enabled'', \<lambda>v st.
          let st1 = st\<lparr>randomEnabled := toBoolean v\<rparr>
          in if \<not> randomEnabled st1 then st1\<lparr>randomValues := map (\<lambda>x. 1) (randomValues st1)\<rparr>
             else st1),
      (''set-random-change-rate'', \<lambda>v st. st\<lparr>randomChangeRate := number_or v 2\<rparr>),
      (''set-lowpass-enabled'', \<lambda>v st. st\<lparr>lowpassEnabled := toBoolean v\<rparr>),
      (''set-lowpass-cutoff'', \<lambda>v st. st\<lparr>lowpassCutoff := number_or v 10\<rparr>),
      (''set-lowpass-slope'', \<lambda>v st. st\<lparr>lowpassSlope := number_or v 2\<rparr>),
      (''set-lowpass-resonance'', \<lambda>v st. st\<lparr>lowpassResonance := number_or v 0.5\<rparr>),
      (''set-highpass-enabled'', \<lambda>v st. st\<lparr>highpassEnabled := toBoolean v\<rparr>),
      (''set-highpass-cutoff'', \<lambda>v st. st\<lparr>highpassCutoff := number_or v 8\<rparr>),
      (''set-highpass-slope'', \<lambda>v st. st\<lparr>highpassSlope := number_or v 2\<rparr>),
      (''set-highpass-resonance'', \<lambda>v st. st\<lparr>highpassResonance := number_or v 0.5\<rparr>),
      (''set-comb-enabled'', \<lambda>v st. st\<lparr>combEnabled := toBoolean v\<rparr>),
      (''set-comb-spacing'', \<lambda>v st. st\<lparr>combSpacing := number_or v 4\<rparr>),
      (''set-comb-phase'', \<lambda>v st. st\<lparr>combPhase := number_or v 0\<rparr>),
      (''set-pwm-enabled'', \<lambda>v st. st\<lparr>pwmEnabled := toBoolean v\<rparr>),
      (''set-pwm-duty'', \<lambda>v st. st\<lparr>pwmDuty := number_or v 0.32\<rparr>),
      (''set-wavefolder-enabled'', \<lambda>v st. st\<lparr>wavefolderEnabled := toBoolean v\<rparr>),
      (''set-wavefolder-fold'', \<lambda>v st. st\<lparr>wavefolderFold := number_or v 2.5\<rparr>),
      (''set-wavefolder-asymmetry'', \<lambda>v st. st\<lparr>wavefolderAsymmetry := number_or v 0\<rparr>),
      (''set-barberpole-enabled'', \<lambda>v st. st\<lparr>barberPoleEnabled := toBoolean v\<rparr>),
      (''set-barberpole-density'', \<lambda>v st. st\<lparr>barberPoleDensity := number_or v 6\<rparr>),
      (''set-barberpole-speed'', \<lambda>v st. st\<lparr>barberPoleSpeed := number_or v 3\<rparr>),
      (''set-barberpole-q'', \<lambda>v st. st\<lparr>barberPoleQ := number_or v 2\<rparr>),
      (''set-falling-enabled'', \<lambda>v st.
          let st1 = st\<lparr>fallingEnabled := toBoolean v\<rparr>
          in if fallingEnabled st1 then st1\<lparr>fallingHarmonic := 31, fallingLanded := {}\<rparr>
             else st1),
      (''set-falling-probability'', \<lambda>v st. st\<lparr>fallingProbability := number_or v 0.1\<rparr>),
      (''set-vowel-enabled'', \<lambda>v st. st\<lparr>vowelEnabled := toBoolean v\<rparr>),
      (''set-vowel-morph'', \<lambda>v st. st\<lparr>vowelMorph := number_or v 0.5\<rparr>),
      (''set-vowel-q'', \<lambda>v st. st\<lparr>vowelQ := number_or v 12\<rparr>),
      (''set-keyboard-pitch-enabled'', \<lambda>v st. st\<lparr>keyboardPitchEnabled := toBoolean v\<rparr>),
      (''set-keyboard-pitch-ratio'', \<lambda>v st.
          st\<lparr>prevKeyboardPitchRatio := keyboardPitchRatio st,
             keyboardPitchRatio := number_or v 1,
             needsImmediateEvent := True\<rparr>),
      (''set-keyboard-gate-enabled'', \<lambda>v st. st\<lparr>keyboardGateEnabled := toBoolean v\<rparr>),
      (''set-keyboard-gate'', \<lambda>v st.
          st\<lparr>prevKeyboardGateOpen := keyboardGateOpen st,
             keyboardGateOpen := toBoolean v,
             needsImmediateEvent := True\<rparr>)]"

text \<open>\<open>port.onmessage\<close>: a message whose type has no handler is ignored.\<close>

definition onmessage ::
  "real list \<Rightarrow> (nat \<Rightarrow> real) \<Rightarrow> string \<times> js_value \<Rightarrow> processor \<Rightarrow> processor" where
  "onmessage ids rnd msg st =
     (case map_of (messageHandlers ids rnd) (fst msg) of
        None \<Rightarrow> st
      | Some handler \<Rightarrow> handler (snd msg) st)"

definition run_messages ::
  "real list \<Rightarrow> (nat \<Rightarrow> real) \<Rightarrow> (string \<times> js_value) list \<Rightarrow> processor \<Rightarrow> processor" where
  "run_messages ids rnd msgs st = foldl (\<lambda>st' msg. onmessage ids rnd msg st') st msgs"

section \<open>AdditiveSynthProcessor: immediate events in \<open>process\<close>\<close>


definition baseAmplitude :: "real \<Rightarrow> processor \<Rightarrow> nat \<Rightarrow> real" where
  "baseAmplitude sr st i =
     (let partialNum = real (i + 1);
          phaseOffset = real i / real NUM_PARTIALS;
          lfoValue = evaluateLfo sr st 0 phaseOffset;
          randomValue = evaluateRandom st i;
          lowpassValue = evaluateLowpass st partialNum;
          highpassValue = evaluateHighpass st partialNum;
          combValue = evaluateComb st partialNum;
          pwmValue = evaluatePwm st partialNum;
          wavefolderValue = evaluateWavefolder st partialNum;
          barberPoleValue = evaluateBarberPole st i;
          fallingValue = evaluateFalling st i;
          vowelValue = evaluateVowel st partialNum
      in lfoValue * randomValue * lowpassValue * highpassValue * combValue * pwmValue
           * wavefolderValue * barberPoleValue * fallingValue * vowelValue)"

definition immediatePartial ::
  "real \<Rightarrow> real \<Rightarrow> real \<Rightarrow> real \<Rightarrow> real \<Rightarrow> real \<Rightarrow> nat \<Rightarrow> processor \<Rightarrow> processor" where
  "immediatePartial currentSample sr prevPitchMod newPitchMod prevGateValue newGateValue i st =
     (let sineId = sineIds st ! i;
          partialNum = real (i + 1);
          sch1 = beginSine sineId True (scheduler st);
          prevAmplitude = (baseAmplitude sr st i * prevGateValue) / 16;
          sch2 = snd (addAmplitudeEvent currentSample prevAmplitude sch1);
          rampSample = js_add currentSample (KEYBOARD_RAMP_SAMPLES st);
          newAmplitude = (baseAmplitude sr st i * newGateValue) / 16;
          sch3 = snd (addAmplitudeEvent rampSample newAmplitude sch2);
          prevFreq = baseFreq st * prevPitchMod * partialNum;
          sch4 = snd (addFrequencyEvent currentSample prevFreq sch3);
          newFreq = baseFreq st * newPitchMod * partialNum;
          sch5 = snd (addFrequencyEvent rampSample newFreq sch4);
          sch6 = endSine sch5
      in st\<lparr>scheduler := sch6,
            lastAmpEventSample := (lastAmpEventSample st)[i := Some rampSample],
            lastFreqEventSample := (lastFreqEventSample st)[i := Some rampSample]\<rparr>)"

definition prevPitchMod :: "processor \<Rightarrow> real" where
  "prevPitchMod st = (if keyboardPitchEnabled st then prevKeyboardPitchRatio st else 1)"

definition prevGateValue :: "processor \<Rightarrow> real" where
  "prevGateValue st =
     (if keyboardGateEnabled st then (if prevKeyboardGateOpen st then 1 else 0) else 1)"

definition immediateLoop :: "real \<Rightarrow> real \<Rightarrow> processor \<Rightarrow> processor" where
  "immediateLoop currentSample sr st =
     fold (immediatePartial currentSample sr (prevPitchMod st) (evaluateKeyboardPitch st)
             (prevGateValue st) (evaluateKeyboardGate st))
          [0..<NUM_PARTIALS] st"

definition injectImmediateEvents :: "real \<Rightarrow> real \<Rightarrow> processor \<Rightarrow> processor" where
  "injectImmediateEvents currentSample sr st =
     (if needsImmediateEvent st
      then let st1 = immediateLoop currentSample sr st
           in st1\<lparr>prevKeyboardPitchRatio := keyboardPitchRatio st1,
                  prevKeyboardGateOpen := keyboardGateOpen st1,
                  needsImmediateEvent := False\<rparr>
      else st)"

section \<open>Auxiliary definitions\<close>

text \<open>
  Sample positions as the audio engine produces them: integers of a magnitude up to
  \<open>2 ^ 51\<close>, on which the sums and the quotient of the tracker are exact. A tracker is
  safe when its interval is a positive integer of that size and its cursor such a position.
\<close>

definition safe_position :: "real \<Rightarrow> bool" where
  "safe_position x = (x \<in> \<int> \<and> \<bar>x\<bar> \<le> 2 ^ 51)"

definition safe_tracker :: "tracker \<Rightarrow> bool" where
  "safe_tracker t =
     (interval t \<in> \<int> \<and> 0 < interval t \<and> interval t \<le> 2 ^ 51
      \<and> (case lastSample t of None \<Rightarrow> True | Some l \<Rightarrow> safe_position l))"

fun safe_call :: "real \<times> real \<Rightarrow> bool" where
  "safe_call (blockStart, targetSample) = (safe_position blockStart \<and> safe_position targetSample)"

text \<open>
  The closed form of the timestamps of one \<open>generateSamples\<close> call on integers, and the
  relation between a timestamp and the cursor of a tracker that the proofs below maintain.
\<close>

definition above :: "tracker \<Rightarrow> real \<Rightarrow> bool" where
  "above t x = (case lastSample t of None \<Rightarrow> True | Some l \<Rightarrow> l < x)"

definition n_events :: "int \<Rightarrow> int \<Rightarrow> int \<Rightarrow> nat" where
  "n_events iv targetSample s = (if s \<le> targetSample then nat ((targetSample - s) div iv + 1) else 0)"

definition stamps :: "int \<Rightarrow> int \<Rightarrow> int \<Rightarrow> int list" where
  "stamps iv targetSample s = map (\<lambda>k. s + int k * iv) [0..<n_events iv targetSample s]"

text \<open>Kinds of scheduler calls, and the shape of the calls of one frame.\<close>

fun is_amp_add :: "sched_op \<Rightarrow> bool" where
  "is_amp_add (AddAmplitudeEvent sample v) = True"
| "is_amp_add c = False"

fun is_add :: "sched_op \<Rightarrow> bool" where
  "is_add (AddAmplitudeEvent sample v) = True"
| "is_add (AddFrequencyEvent sample f) = True"
| "is_add c = False"

fun is_begin_sine :: "sched_op \<Rightarrow> bool" where
  "is_begin_sine (BeginSine sineId override) = True"
| "is_begin_sine c = False"

text \<open>
  The calls that follow \<open>beginFrame\<close> in one frame: no further \<open>beginFrame\<close>, and
  \<open>beginSine\<close> comes first, so that every event and every \<open>endSine\<close> belongs to a sine
  begun in this frame.
\<close>

definition in_frame :: "sched_op list \<Rightarrow> bool" where
  "in_frame ops = (BeginFrame \<notin> set ops \<and> (case ops of [] \<Rightarrow> True | c # cs \<Rightarrow> is_begin_sine c))"

definition sines_begun :: "sched_op list \<Rightarrow> nat" where
  "sines_begun ops = length (filter is_begin_sine ops)"

text \<open>
  The invariant of a frame: the space still owed to the sine being built fits below
  \<open>bound\<close>, and the count fields lie below the write offsets.
\<close>

definition sched_inv :: "nat \<Rightarrow> scheduler \<Rightarrow> bool" where
  "sched_inv bound s =
     (currentAmpCount s \<le> maxEventsPerSine s
      \<and> ampOffset s + 2 * (maxEventsPerSine s - currentAmpCount s) \<le> bound
      \<and> ampCountIdx s < ampOffset s
      \<and> currentFreqCount s \<le> maxEventsPerSine s
      \<and> freqOffset s + 2 * (maxEventsPerSine s - currentFreqCount s) \<le> bound
      \<and> freqCountIdx s < freqOffset s)"

text \<open>Kinds of accumulator calls; the calls whose arguments are not negative.\<close>

fun is_sinAt :: "pa_op \<Rightarrow> bool" where
  "is_sinAt (SinAt sampleOffset sampleRate phaseOffset) = True"
| "is_sinAt c = False"

fun pa_op_nonneg :: "pa_op \<Rightarrow> bool" where
  "pa_op_nonneg (SetRate r) = (0 \<le> r)"
| "pa_op_nonneg (Advance currentSample sampleRate) = (0 < sampleRate)"
| "pa_op_nonneg (SinAt sampleOffset sampleRate phaseOffset) = True"
| "pa_op_nonneg (ResetPhase p) = (0 \<le> p)"

text \<open>
  A processor on which the comb is the only enabled modulator, and the one that the
  messages of the user interface reach from the constructor by switching the LFO and
  the random modulator off and the comb on.
\<close>

definition comb_only :: "processor \<Rightarrow> bool" where
  "comb_only st =
     (\<not> lfoEnabled st \<and> \<not> randomEnabled st \<and> \<not> lowpassEnabled st \<and> \<not> highpassEnabled st
      \<and> combEnabled st \<and> \<not> pwmEnabled st \<and> \<not> wavefolderEnabled st \<and> \<not> barberPoleEnabled st
      \<and> \<not> fallingEnabled st \<and> \<not> vowelEnabled st \<and> \<not> keyboardGateEnabled st)"

definition comb_only_state :: processor where
  "comb_only_state = run_messages [] (\<lambda>i. 0)
     [(''set-lfo-enabled'', JBool False), (''set-random-enabled'', JBool False),
      (''set-comb-enabled'', JBool True)] (new_processor True)"

text \<open>
  A payload that \<open>Number\<close> turns into \<open>NaN\<close> or zero; the parameters whose handlers have
  a default other than zero; a handler that keeps them away from zero.
\<close>

definition falsy_number :: "js_value \<Rightarrow> bool" where
  "falsy_number v = (toNumber v = None \<or> toNumber v = Some 0)"

definition nonzero_params :: "processor \<Rightarrow> bool" where
  "nonzero_params st =
     (baseFreq st \<noteq> 0 \<and> rate (lfo st) \<noteq> 0 \<and> randomChangeRate st \<noteq> 0
      \<and> lowpassCutoff st \<noteq> 0 \<and> lowpassSlope st \<noteq> 0 \<and> lowpassResonance st \<noteq> 0
      \<and> highpassCutoff st \<noteq> 0 \<and> highpassSlope st \<noteq> 0 \<and> highpassResonance st \<noteq> 0
      \<and> combSpacing st \<noteq> 0 \<and> pwmDuty st \<noteq> 0 \<and> wavefolderFold st \<noteq> 0
      \<and> barberPoleDensity st \<noteq> 0 \<and> barberPoleSpeed st \<noteq> 0 \<and> barberPoleQ st \<noteq> 0
      \<and> fallingProbability st \<noteq> 0 \<and> vowelMorph st \<noteq> 0 \<and> vowelQ st \<noteq> 0
      \<and> keyboardPitchRatio st \<noteq> 0)"

definition preserves_nonzero :: "(js_value \<Rightarrow> processor \<Rightarrow> processor) \<Rightarrow> bool" where
  "preserves_nonzero handler = (\<forall>v st. nonzero_params st \<longrightarrow> nonzero_params (handler v st))"


text \<open>
  A processor with no change pending, as the constructor and the block of \<open>process\<close>
  leave it: the saved pitch ratio and gate are the current ones. The messages that
  change a control: at least one, and at most one for each of the two controls.
\<close>

definition settled :: "processor \<Rightarrow> bool" where
  "settled st =
     (\<not> needsImmediateEvent st \<and> prevKeyboardPitchRatio st = keyboardPitchRatio st
      \<and> prevKeyboardGateOpen st = keyboardGateOpen st)"


text \<open>
  The states on which the modulators of partial \<open>i\<close> are evaluated inside the domain of
  their operations: no division by zero, \<open>Math.pow\<close> and \<open>Math.log2\<close> at positive
  arguments (or \<open>Math.pow\<close> at a base that is not negative with an exponent that is not
  negative), and every array read inside the array (the table of formants is the
  constructor's). On these states every operation of the model is the real function
  whose value the operation of the source rounds.
\<close>

definition modulators_defined :: "real \<Rightarrow> processor \<Rightarrow> nat \<Rightarrow> bool" where
  "modulators_defined sr st i =
     ((lfoEnabled st \<longrightarrow> 0 < sr)
      \<and> (randomEnabled st \<longrightarrow> i < length (randomValues st))
      \<and> (lowpassEnabled st \<longrightarrow> 0 < lowpassCutoff st)
      \<and> (highpassEnabled st \<longrightarrow> 0 < highpassCutoff st)
      \<and> (combEnabled st \<longrightarrow> combSpacing st \<noteq> 0)
      \<and> (wavefolderEnabled st \<longrightarrow>
            wavefolderFold st * (1 + real (i + 1) / 32 * wavefolderAsymmetry st) \<noteq> 0)
      \<and> (barberPoleEnabled st \<longrightarrow> barberPoleDensity st \<noteq> 0 \<and> 0 \<le> barberPoleQ st)
      \<and> (vowelEnabled st \<longrightarrow>
            0 < baseFreq st \<and> vowelFormants st = vowelFormants (new_processor True)))"





definition store_section :: "float32 list \<Rightarrow> nat \<Rightarrow> real list \<Rightarrow> float32 list" where
  "store_section buf a xs =
     store (store (store (store (store (store (store buf
       a (xs ! 0)) (a + 2) (xs ! 2)) (a + 3) (xs ! 3)) (a + 4) (xs ! 4)) (a + 5) (xs ! 5))
       (a + 6) (xs ! 6)) (a + 1) (xs ! 1)"




section \<open>Properties of the rounding\<close>

text \<open>
  The error of a rounding, its value at a number whose exponent is known, and its
  exactness on the integers that a significand holds.
\<close>

lemma round_even_of_int [simp]: "round_even (of_int m) = m"
  by (simp add: round_even_def)

lemma round_even_error: "\<bar>of_int (round_even y) - y\<bar> \<le> 1 / 2"
  unfolding round_even_def Let_def by (auto simp: abs_le_iff)

lemma powi_as_powr: "(2::real) powi k = 2 powr (of_int k)"
  by (simp add: powr_real_of_int')

lemma floor_log2_eq:
  assumes "2 powi e \<le> \<bar>x\<bar>" "\<bar>x\<bar> < 2 powi (e + 1)"
  shows "\<lfloor>log 2 \<bar>x\<bar>\<rfloor> = e"
proof -
  have "(0::real) < 2 powi e"
    by simp
  with assms(1) have pos: "0 < \<bar>x\<bar>"
    by linarith
  have "2 powr (of_int e) \<le> \<bar>x\<bar>" "\<bar>x\<bar> < 2 powr (of_int (e + 1))"
    using assms unfolding powi_as_powr by blast+
  then show ?thesis
    using pos floor_log_eq_powr_iff [of "\<bar>x\<bar>" 2 e] by simp
qed

lemma floor_log2_bounds:
  assumes "x \<noteq> 0"
  shows "2 powi \<lfloor>log 2 \<bar>x\<bar>\<rfloor> \<le> \<bar>x\<bar> \<and> \<bar>x\<bar> < 2 powi (\<lfloor>log 2 \<bar>x\<bar>\<rfloor> + 1)"
proof -
  have pos: "0 < \<bar>x\<bar>" using assms by simp
  have "2 powr (of_int \<lfloor>log 2 \<bar>x\<bar>\<rfloor>) \<le> \<bar>x\<bar> \<and> \<bar>x\<bar> < 2 powr (of_int (\<lfloor>log 2 \<bar>x\<bar>\<rfloor> + 1))"
    using pos floor_log_eq_powr_iff [of "\<bar>x\<bar>" 2 "\<lfloor>log 2 \<bar>x\<bar>\<rfloor>"] by simp
  then show ?thesis
    unfolding powi_as_powr .
qed

lemma binary_round_eval:
  assumes "2 powi e \<le> \<bar>x\<bar>" "\<bar>x\<bar> < 2 powi (e + 1)" "emin \<le> e"
  shows "binary_round p emin x = 2 powi (e - p + 1) * of_int (round_even (x / 2 powi (e - p + 1)))"
proof -
  have "(0::real) < 2 powi e"
    by simp
  with assms(1) have "0 < \<bar>x\<bar>"
    by linarith
  then have "x \<noteq> 0"
    by simp
  then show ?thesis
    using floor_log2_eq [OF assms(1,2)] assms(3) by (simp add: binary_round_def Let_def max_def)
qed

lemma powi_less_imp: "(2::real) powi m < 2 powi n \<Longrightarrow> m < n"
  using power_int_increasing [of n m "2::real"] by (cases "m < n") simp_all

lemma powi_le_imp: "(2::real) powi m \<le> 2 powi n \<Longrightarrow> m \<le> n"
  using power_int_strict_increasing [of n m "2::real"] by (cases "m \<le> n") simp_all

lemma binary_round_of_int:
  assumes "\<bar>n\<bar> \<le> 2 ^ nat p" "1 \<le> p" "emin \<le> 0"
  shows "binary_round p emin (of_int n) = of_int n"
proof (cases "n = 0")
  case True
  then show ?thesis by (simp add: binary_round_def)
next
  case False
  define x :: real where "x = of_int n"
  define e where "e = \<lfloor>log 2 \<bar>x\<bar>\<rfloor>"
  have x0: "x \<noteq> 0" using False by (simp add: x_def)
  have b: "2 powi e \<le> \<bar>x\<bar>" "\<bar>x\<bar> < 2 powi (e + 1)"
    using floor_log2_bounds [OF x0] by (simp_all add: e_def)
  have "1 \<le> \<bar>x\<bar>" using False by (simp add: x_def)
  then have "2 powi 0 \<le> \<bar>x\<bar>" by simp
  with b(2) have "(2::real) powi 0 < 2 powi (e + 1)" by linarith
  then have e0: "0 \<le> e"
    using powi_less_imp [of 0 "e + 1"] by simp
  have pw: "(2::real) powi p = of_int (2 ^ nat p)"
    using assms(2) by (simp add: power_int_def)
  have ax: "\<bar>x\<bar> = of_int \<bar>n\<bar>"
    by (simp add: x_def)
  have "\<bar>x\<bar> \<le> 2 powi p"
    unfolding pw ax using assms(1) by (simp only: of_int_le_iff)
  with b(1) have "(2::real) powi e \<le> 2 powi p" by linarith
  then have ep: "e \<le> p"
    by (rule powi_le_imp)
  have emax: "max e emin = e" using e0 assms(3) by simp
  have "2 powi (e - p + 1) * real_of_int (round_even (x / 2 powi (e - p + 1))) = x"
  proof (cases "e = p")
    case True
    have "\<bar>x\<bar> = 2 powi p"
      using b(1) \<open>\<bar>x\<bar> \<le> 2 powi p\<close> True by simp
    then have "\<bar>n\<bar> = 2 ^ nat p"
      unfolding pw ax by (simp only: of_int_eq_iff)
    moreover obtain k where k: "nat p = Suc k"
      using assms(2) by (cases "nat p") simp_all
    ultimately have "\<bar>n\<bar> = 2 * 2 ^ k" by simp
    then have "n = 2 * 2 ^ k \<or> n = 2 * (- (2 ^ k))"
      by (cases "0 \<le> n") simp_all
    then obtain m where m: "n = 2 * m" by blast
    show ?thesis
      unfolding True x_def m by simp
  next
    case False
    with ep have "e - p + 1 \<le> 0" by simp
    then obtain k where k: "e - p + 1 = - int k"
      by (metis nonpos_int_cases)
    have "x / 2 powi (e - p + 1) = of_int (n * 2 ^ k)"
      unfolding k x_def by (simp add: power_int_minus field_simps)
    then show ?thesis
      unfolding k x_def by (simp add: power_int_minus field_simps del: of_int_mult of_int_power)
  qed
  then show ?thesis
    using x0 emax unfolding binary_round_def Let_def x_def [symmetric] e_def [symmetric] by simp
qed

lemma dbl_of_int: "\<bar>n\<bar> \<le> 2 ^ 53 \<Longrightarrow> dbl (of_int n) = of_int n"
  unfolding dbl_def by (rule binary_round_of_int) simp_all

lemma fround_of_int: "\<bar>n\<bar> \<le> 2 ^ 24 \<Longrightarrow> fround (of_int n) = Finite (of_int n)"
proof -
  assume a: "\<bar>n\<bar> \<le> 2 ^ 24"
  then have "single (of_int n) = of_int n"
    unfolding single_def by (intro binary_round_of_int) simp_all
  moreover have "real_of_int \<bar>n\<bar> \<le> real_of_int (2 ^ 24)"
    using a by (simp only: of_int_le_iff)
  then have "\<bar>real_of_int n\<bar> \<le> 2 ^ 24"
    by simp
  ultimately show ?thesis
    by (simp add: fround_def abs_le_iff)
qed

lemma binary_round_error:
  assumes "2 powi emin \<le> \<bar>x\<bar>"
  shows "\<bar>binary_round p emin x - x\<bar> \<le> \<bar>x\<bar> * 2 powi (- p)"
proof -
  define e where "e = \<lfloor>log 2 \<bar>x\<bar>\<rfloor>"
  define q :: real where "q = 2 powi (e - p + 1)"
  have "(0::real) < 2 powi emin" by simp
  with assms have "0 < \<bar>x\<bar>" by linarith
  then have x0: "x \<noteq> 0" by simp
  have b: "2 powi e \<le> \<bar>x\<bar>" "\<bar>x\<bar> < 2 powi (e + 1)"
    using floor_log2_bounds [OF x0] by (simp_all add: e_def)
  from assms b(2) have "(2::real) powi emin < 2 powi (e + 1)" by linarith
  then have "emin < e + 1" by (rule powi_less_imp)
  then have emax: "max e emin = e" by simp
  have q0: "0 < q" by (simp add: q_def)
  have br: "binary_round p emin x = q * of_int (round_even (x / q))"
    using x0 emax unfolding binary_round_def Let_def e_def [symmetric] q_def by simp
  have "binary_round p emin x - x = q * (of_int (round_even (x / q)) - x / q)"
    using q0 by (simp add: br field_simps)
  then have "\<bar>binary_round p emin x - x\<bar> = q * \<bar>of_int (round_even (x / q)) - x / q\<bar>"
    using q0 by (simp add: abs_mult)
  also have "\<dots> \<le> q * (1 / 2)"
    using q0 round_even_error [of "x / q"] by (intro mult_left_mono) simp_all
  also have "q * (1 / 2) = 2 powi e * 2 powi (- p)"
    unfolding q_def by (simp add: power_int_diff power_int_add power_int_minus field_simps)
  also have "\<dots> \<le> \<bar>x\<bar> * 2 powi (- p)"
    using b(1) by (intro mult_right_mono) simp_all
  finally show ?thesis .
qed

text \<open>
  The floor of the rounded quotient of two integers of a magnitude up to \<open>2 ^ 53\<close> is
  their integer quotient: the rounding error is smaller than the distance of the exact
  quotient from the next integer.
\<close>

lemma floor_dbl_div:
  assumes "0 \<le> a" "a < 2 ^ 53" "0 < b" "b \<le> 2 ^ 53"
  shows "\<lfloor>dbl (of_int a / of_int b)\<rfloor> = a div b"
proof (cases "a mod b = 0")
  case True
  then have "b dvd a"
    by (simp add: dvd_eq_mod_eq_0)
  then have "of_int a / of_int b = (of_int (a div b) :: real)"
    by (simp add: real_of_int_div)
  moreover have "\<bar>a div b\<bar> \<le> 2 ^ 53"
  proof -
    have "0 \<le> a div b" using assms(1,3) by (simp add: pos_imp_zdiv_nonneg_iff)
    moreover have "a div b \<le> a"
    proof -
      have "a div b * 1 \<le> a div b * b"
        using \<open>0 \<le> a div b\<close> assms(3) by (intro mult_left_mono) simp_all
      moreover have "a div b * b + a mod b = a" by simp
      moreover have "0 \<le> a mod b" using assms(3) by simp
      ultimately show ?thesis by linarith
    qed
    ultimately show ?thesis using assms(2) by simp
  qed
  ultimately show ?thesis
    by (simp add: dbl_of_int)
next
  case False
  define x :: real where "x = of_int a / of_int b"
  define k where "k = a div b"
  define r where "r = a mod b"
  have "0 \<le> a mod b" "a mod b < b"
    using assms(3) by simp_all
  with False have r: "1 \<le> r" "r < b"
    unfolding r_def by linarith+
  have a: "a = k * b + r"
    by (simp add: k_def r_def)
  have bpos: "0 < real_of_int b" using assms(3) by simp
  have xk: "x = of_int k + of_int r / of_int b"
    unfolding x_def a using bpos by (simp add: field_simps)
  have lo: "of_int k + 1 / of_int b \<le> x"
    unfolding xk using r(1) bpos by (simp add: divide_right_mono)
  have hi: "x \<le> of_int k + 1 - 1 / of_int b"
  proof -
    have "real_of_int r \<le> of_int b - 1" using r(2) by linarith
    then have "of_int r / of_int b \<le> (of_int b - 1) / real_of_int b"
      by (rule divide_right_mono) (use bpos in simp)
    also have "(of_int b - 1) / real_of_int b = 1 - 1 / of_int b"
      using bpos by (simp add: field_simps)
    finally show ?thesis unfolding xk by simp
  qed
  have apos: "0 < a" using a r assms(1) False by (cases "a = 0") simp_all
  have xpos: "0 < x" unfolding x_def using apos bpos by simp
  have "1 / of_int b \<le> x"
  proof -
    have "1 \<le> real_of_int a" using apos by linarith
    then show ?thesis unfolding x_def using bpos by (simp add: divide_right_mono)
  qed
  moreover have "(2::real) powi (- 1022) \<le> 1 / of_int b"
  proof -
    have "real_of_int b \<le> real_of_int (2 ^ 53)" using assms(4) by (simp only: of_int_le_iff)
    then have "1 / (2 ^ 53 :: real) \<le> 1 / of_int b"
      using bpos by (intro divide_left_mono) simp_all
    moreover have "(2::real) powi (- 1022) \<le> 1 / 2 ^ 53"
      by (simp add: power_int_minus field_simps)
    ultimately show ?thesis by linarith
  qed
  ultimately have "2 powi (- 1022) \<le> \<bar>x\<bar>" using xpos by simp
  from binary_round_error [OF this, of 53]
  have err: "\<bar>dbl x - x\<bar> \<le> x * 2 powi (- 53)"
    using xpos by (simp add: dbl_def)
  have "x * 2 powi (- 53) < 1 / of_int b"
  proof -
    have "real_of_int a < real_of_int (2 ^ 53)" using assms(2) by (simp only: of_int_less_iff)
    then have lt: "real_of_int a / 2 ^ 53 < 1" by simp
    have "x * 2 powi (- 53) = (real_of_int a / 2 ^ 53) * (1 / of_int b)"
      unfolding x_def by (simp add: power_int_minus)
    also have "\<dots> < 1 * (1 / of_int b)"
      by (rule mult_strict_right_mono [OF lt]) (use bpos in simp)
    finally show ?thesis by simp
  qed
  with err have "\<bar>dbl x - x\<bar> < 1 / of_int b"
    by linarith
  then have "x - 1 / of_int b < dbl x" "dbl x < x + 1 / of_int b"
    by linarith+
  with lo hi have "of_int k \<le> dbl x" "dbl x < of_int k + 1"
    by linarith+
  then have "\<lfloor>dbl x\<rfloor> = k"
    by (simp add: floor_unique)
  then show ?thesis
    by (simp add: x_def k_def)
qed

lemma js_add_int:
  assumes "\<bar>a + b\<bar> \<le> 2 ^ 53"
  shows "js_add (of_int a) (of_int b) = of_int (a + b)"
  using dbl_of_int [OF assms] by (simp add: js_add_def)

section \<open>Properties of the tracker\<close>

lemma n_events_step:
  assumes "0 < iv" "s \<le> targetSample"
  shows "n_events iv targetSample s = Suc (n_events iv targetSample (s + iv))"
proof (cases "s + iv \<le> targetSample")
  case True
  have "targetSample - s = (targetSample - (s + iv)) + iv"
    by simp
  then have "(targetSample - s) div iv = ((targetSample - (s + iv)) + iv) div iv"
    by (rule arg_cong)
  also have "\<dots> = (targetSample - (s + iv)) div iv + 1"
    using assms by (subst div_add_self2) simp_all
  finally have "(targetSample - s) div iv = (targetSample - (s + iv)) div iv + 1" .
  moreover have "0 \<le> (targetSample - (s + iv)) div iv"
    using True assms by (simp add: pos_imp_zdiv_nonneg_iff)
  ultimately show ?thesis
    using True assms by (simp add: n_events_def nat_add_distrib)
next
  case False
  then have "(targetSample - s) div iv = 0"
    using assms by (simp add: div_pos_pos_trivial)
  then show ?thesis
    using False assms by (simp add: n_events_def)
qed

lemma stamps_step:
  assumes "0 < iv" "s \<le> targetSample"
  shows "stamps iv targetSample s = s # stamps iv targetSample (s + iv)"
proof -
  have "map (\<lambda>k. s + int k * iv) [0..<Suc n] = s # map (\<lambda>k. s + iv + int k * iv) [0..<n]" for n
    by (simp add: upt_conv_Cons map_Suc_upt [symmetric] algebra_simps del: upt_Suc)
  then show ?thesis
    unfolding stamps_def n_events_step [OF assms] by simp
qed

lemma stamps_empty: "\<not> s \<le> targetSample \<Longrightarrow> stamps iv targetSample s = []"
  by (simp add: stamps_def n_events_def)

lemma length_stamps: "length (stamps iv g s) = n_events iv g s"
  by (simp add: stamps_def)

lemma stamps_sorted: "0 < iv \<Longrightarrow> sorted_wrt (<) (stamps iv g s)"
  by (simp add: stamps_def sorted_wrt_iff_nth_less)

lemma stamps_lower: "0 < iv \<Longrightarrow> x \<in> set (stamps iv g s) \<Longrightarrow> s \<le> x"
  by (auto simp: stamps_def)

lemma stamps_upper:
  assumes "0 < iv" "x \<in> set (stamps iv g s)"
  shows "x \<le> g"
proof -
  from assms(2) obtain k where k: "k < n_events iv g s" "x = s + int k * iv"
    by (auto simp: stamps_def)
  then have sg: "s \<le> g" by (auto simp: n_events_def split: if_splits)
  then have "int k \<le> (g - s) div iv"
    using k(1) by (simp add: n_events_def)
  then have "int k * iv \<le> (g - s) div iv * iv"
    using assms(1) by (intro mult_right_mono) simp_all
  also have "\<dots> \<le> g - s"
  proof -
    have "(g - s) div iv * iv + (g - s) mod iv = g - s" by simp
    moreover have "0 \<le> (g - s) mod iv" using assms(1) by simp
    ultimately show ?thesis by linarith
  qed
  finally show ?thesis using k(2) by simp
qed

lemma stamps_le_last:
  assumes "0 < iv" "x \<in> set (stamps iv g s)"
  shows "x \<le> last (stamps iv g s)"
proof -
  from assms(2) obtain k where k: "k < n_events iv g s" "x = s + int k * iv"
    by (auto simp: stamps_def)
  then have "last (stamps iv g s) = s + int (n_events iv g s - 1) * iv"
    by (simp add: stamps_def last_map)
  moreover have "int k \<le> int (n_events iv g s - 1)"
    using k by simp
  ultimately show ?thesis
    using assms(1) k by (simp add: mult_right_mono)
qed

lemma gen_loop_safe:
  assumes "0 < iv" "iv \<le> 2 ^ 51" "\<bar>g\<bar> \<le> 2 ^ 51" "\<bar>s\<bar> \<le> 2 ^ 52"
  shows "gen_loop (of_int iv) (of_int g) (of_int s) lg acc =
           Some (acc @ map of_int (stamps iv g s),
                 if stamps iv g s = [] then lg else Some (of_int (last (stamps iv g s))))"
  using assms(4)
proof (induction "nat (g - s + 1)" arbitrary: s lg acc rule: less_induct)
  case less
  show ?case
  proof (cases "s \<le> g")
    case True
    have m: "nat (g - (s + iv) + 1) < nat (g - s + 1)"
      using True assms(1) by simp
    have b: "\<bar>s + iv\<bar> \<le> 2 ^ 52"
      using True assms(1,2,3) less.prems by simp
    then have add: "js_add (of_int s) (of_int iv) = of_int (s + iv)"
      by (intro js_add_int) simp
    from less.hyps [OF m b] True assms(1) show ?thesis
      by (subst gen_loop.simps) (simp add: add stamps_step [of iv s g])
  next
    case False
    then show ?thesis
      by (subst gen_loop.simps) (simp add: stamps_empty)
  qed
qed

lemma safe_positionE:
  assumes "safe_position x"
  obtains k where "x = of_int k" "\<bar>k\<bar> \<le> 2 ^ 51"
proof -
  from assms obtain k where k: "x = of_int k"
    unfolding safe_position_def by (auto elim: Ints_cases)
  with assms have "real_of_int \<bar>k\<bar> \<le> real_of_int (2 ^ 51)"
    by (simp add: safe_position_def)
  then have "\<bar>k\<bar> \<le> 2 ^ 51"
    by (simp only: of_int_le_iff)
  with k that show thesis by blast
qed

lemma safe_position_of_int: "\<bar>k\<bar> \<le> 2 ^ 51 \<Longrightarrow> safe_position (of_int k)"
proof -
  assume "\<bar>k\<bar> \<le> 2 ^ 51"
  then have "real_of_int \<bar>k\<bar> \<le> real_of_int (2 ^ 51)"
    by (simp only: of_int_le_iff)
  then show ?thesis
    by (simp add: safe_position_def)
qed

lemma safe_trackerE:
  assumes "safe_tracker t"
  obtains iv where "interval t = of_int iv" "0 < iv" "iv \<le> 2 ^ 51"
proof -
  from assms obtain iv where iv: "interval t = of_int iv"
    unfolding safe_tracker_def by (auto elim: Ints_cases)
  with assms have "real_of_int iv \<le> real_of_int (2 ^ 51)" "0 < iv"
    by (simp_all add: safe_tracker_def)
  then have "iv \<le> 2 ^ 51" "0 < iv"
    by (simp_all only: of_int_le_iff)
  with iv that show thesis by blast
qed

lemma safe_first:
  assumes "safe_tracker t" "safe_position b" "interval t = of_int iv" "0 < iv" "iv \<le> 2 ^ 51"
  obtains s where "firstSample t b = of_int s" "- (2 ^ 51) \<le> s" "s \<le> 2 ^ 52"
    "\<And>x. s \<le> x \<Longrightarrow> above t (of_int x)"
proof (cases "lastSample t")
  case None
  from assms(2) obtain k where k: "b = of_int k" "\<bar>k\<bar> \<le> 2 ^ 51"
    by (rule safe_positionE)
  have "firstSample t b = of_int k" by (simp add: firstSample_def None k)
  moreover have "- (2 ^ 51) \<le> k" "k \<le> 2 ^ 52" using k(2) by simp_all
  moreover have "above t (of_int x)" for x :: int by (simp add: above_def None)
  ultimately show thesis using that by blast
next
  case (Some l)
  with assms(1) have "safe_position l" by (simp add: safe_tracker_def)
  then obtain k where k: "l = of_int k" "\<bar>k\<bar> \<le> 2 ^ 51"
    by (rule safe_positionE)
  have "\<bar>k + iv\<bar> \<le> 2 ^ 53" using k(2) assms(4,5) by simp
  then have "firstSample t b = of_int (k + iv)"
    by (simp add: firstSample_def Some k assms(3) js_add_int)
  moreover have "- (2 ^ 51) \<le> k + iv" "k + iv \<le> 2 ^ 52" using k(2) assms(4,5) by simp_all
  moreover have "above t (of_int x)" if "k + iv \<le> x" for x
    using that assms(4) by (simp add: above_def Some k)
  ultimately show thesis using that by blast
qed

lemma generateSamples_safe:
  assumes "interval t = of_int iv" "0 < iv" "iv \<le> 2 ^ 51" "firstSample t b = of_int s"
    "\<bar>s\<bar> \<le> 2 ^ 52" "\<bar>g\<bar> \<le> 2 ^ 51"
  shows "generateSamples t b (of_int g) =
           Some (map of_int (stamps iv g s),
                 if stamps iv g s = [] then t
                 else t\<lparr>lastSample := Some (of_int (last (stamps iv g s)))\<rparr>)"
  by (simp add: generateSamples_def assms(1,4) gen_loop_safe [OF assms(2,3,6,5)])

lemma countEvents_safe:
  assumes "interval t = of_int iv" "0 < iv" "iv \<le> 2 ^ 51" "firstSample t b = of_int s"
    "- (2 ^ 51) \<le> s" "s \<le> 2 ^ 52" "\<bar>g\<bar> \<le> 2 ^ 51"
  shows "countEvents t b (of_int g) = (real (n_events iv g s), t)"
proof (cases "s \<le> g")
  case False
  then show ?thesis
    by (simp add: countEvents_def assms(4) n_events_def)
next
  case True
  have d: "0 \<le> g - s" "g - s < 2 ^ 53"
    using True assms(5,7) by simp_all
  then have sub: "js_sub (of_int g) (of_int s) = of_int (g - s)"
    using dbl_of_int [of "g - s"] by (simp add: js_sub_def)
  have fl: "\<lfloor>js_div (of_int (g - s)) (of_int iv)\<rfloor> = (g - s) div iv"
    unfolding js_div_def using d assms(2,3) by (intro floor_dbl_div) simp_all
  have k0: "0 \<le> (g - s) div iv"
    using d(1) assms(2) by (simp add: pos_imp_zdiv_nonneg_iff)
  have "(g - s) div iv \<le> g - s"
  proof -
    have "(g - s) div iv * 1 \<le> (g - s) div iv * iv"
      using k0 assms(2) by (intro mult_left_mono) simp_all
    moreover have "(g - s) div iv * iv + (g - s) mod iv = g - s" by simp
    moreover have "0 \<le> (g - s) mod iv" using assms(2) by simp
    ultimately show ?thesis by linarith
  qed
  then have "\<bar>(g - s) div iv + 1\<bar> \<le> 2 ^ 53"
    using k0 d(2) by simp
  then have "js_add (of_int ((g - s) div iv)) 1 = of_int ((g - s) div iv + 1)"
    using js_add_int [of "(g - s) div iv" 1] by simp
  also have "\<dots> = real (n_events iv g s)"
    using True k0 by (simp add: n_events_def)
  finally show ?thesis
    using True by (simp add: countEvents_def assms(1,4) sub fl Let_def del: of_int_diff)
qed

text \<open>
  The doubles nearest to 0.1, 0.6 and 0.7, and the sums, the difference and the quotient
  of doubles that the tracker computes from them.
\<close>

lemma dbl_0_1: "dbl (1 / 10) = 3602879701896397 / 36028797018963968"
  unfolding dbl_def
  by (subst binary_round_eval [of "-4"]) (simp_all add: round_even_def power_int_minus)

lemma dbl_0_6: "dbl (6 / 10) = 5404319552844595 / 9007199254740992"
  unfolding dbl_def
  by (subst binary_round_eval [of "-1"]) (simp_all add: round_even_def power_int_minus)

lemma dbl_0_7: "dbl (7 / 10) = 3152519739159347 / 4503599627370496"
  unfolding dbl_def
  by (subst binary_round_eval [of "-1"]) (simp_all add: round_even_def power_int_minus)

lemma add_0_6_0_1: "js_add (5404319552844595 / 9007199254740992) (3602879701896397 / 36028797018963968) = 3152519739159347 / 4503599627370496"
  unfolding js_add_def dbl_def
  by (subst binary_round_eval [of "-1"]) (simp_all add: round_even_def power_int_minus)

lemma add_0_7_0_1: "js_add (3152519739159347 / 4503599627370496) (3602879701896397 / 36028797018963968) = 7205759403792793 / 9007199254740992"
  unfolding js_add_def dbl_def
  by (subst binary_round_eval [of "-1"]) (simp_all add: round_even_def power_int_minus)

lemma sub_0_7_0_6: "js_sub (3152519739159347 / 4503599627370496) (5404319552844595 / 9007199254740992) = 900719925474099 / 9007199254740992"
  unfolding js_sub_def dbl_def
  by (subst binary_round_eval [of "-4"]) (simp_all add: round_even_def power_int_minus)

lemma div_diff_0_1: "js_div (900719925474099 / 9007199254740992) (3602879701896397 / 36028797018963968) = 4503599627370495 / 4503599627370496"
  unfolding js_div_def dbl_def
  by (subst binary_round_eval [of "-1"]) (simp_all add: round_even_def power_int_minus)

lemma js_add_0_1: "js_add 0 1 = 1"
  using js_add_int [of 0 1] by simp

text \<open>At \<open>2 ^ 53\<close> the spacing of the doubles is 2: adding 1 changes nothing.\<close>

lemma js_add_absorbed: "js_add 9007199254740992 1 = 9007199254740992"
  unfolding js_add_def dbl_def
  by (subst binary_round_eval [of "53"]) (simp_all add: round_even_def)

lemma js_arith_small:
  "js_sub 9007199254740994 9007199254740992 = 2" "js_div 2 1 = 2" "js_add 2 1 = 3"
  using dbl_of_int [of 2] dbl_of_int [of 3] by (simp_all add: js_sub_def js_div_def js_add_def)

text \<open>
  Claim C3, as stated, fails: the interval and the positions are doubles and need not be
  integers. On a fresh tracker with interval 0.1, \<open>countEvents(0.6, 0.7)\<close> returns 1:
  the difference of the doubles 0.7 and 0.6 is less than the double 0.1, and the floor
  of the quotient is 0. The generator yields two timestamps, 0.6 and 0.6 + 0.1, which
  is the double 0.7. Nor does it hold for all integers: with \<open>lastSample\<close> at \<open>2 ^ 53\<close>
  and interval 1, \<open>countEvents(0, 2 ^ 53 + 2)\<close> returns 3, while the generator has not
  ended after four timestamps.
\<close>

theorem countEvents_counterexample:
  "fst (countEvents (new_tracker (dbl (1 / 10))) (dbl (6 / 10)) (dbl (7 / 10))) = 1
   \<and> generateSamples (new_tracker (dbl (1 / 10))) (dbl (6 / 10)) (dbl (7 / 10))
       = Some ([dbl (6 / 10), dbl (7 / 10)],
               \<lparr>lastSample = Some (dbl (7 / 10)), interval = dbl (1 / 10)\<rparr>)
   \<and> fst (countEvents \<lparr>lastSample = Some 9007199254740992, interval = 1\<rparr> 0 9007199254740994) = 3
   \<and> generateSamples_take 4 \<lparr>lastSample = Some 9007199254740992, interval = 1\<rparr>
         0 9007199254740994
       = ([9007199254740992, 9007199254740992, 9007199254740992, 9007199254740992],
          \<lparr>lastSample = Some 9007199254740992, interval = 1\<rparr>)"
proof -
  have c2: "fst (countEvents \<lparr>lastSample = Some 9007199254740992, interval = 1\<rparr>
      0 9007199254740994) = 3"
    by (simp add: countEvents_def firstSample_def js_add_absorbed js_arith_small)
  have g2: "generateSamples_take 4 \<lparr>lastSample = Some 9007199254740992, interval = 1\<rparr>
         0 9007199254740994
       = ([9007199254740992, 9007199254740992, 9007199254740992, 9007199254740992],
          \<lparr>lastSample = Some 9007199254740992, interval = 1\<rparr>)"
    by (simp add: generateSamples_take_def firstSample_def js_add_absorbed numeral_eq_Suc)
  have c: "fst (countEvents (new_tracker (dbl (1 / 10))) (dbl (6 / 10)) (dbl (7 / 10))) = 1"
    unfolding dbl_0_1 dbl_0_6 dbl_0_7
    by (simp add: countEvents_def firstSample_def new_tracker_def sub_0_7_0_6 div_diff_0_1
        js_add_0_1)
  have "gen_loop (dbl (1 / 10)) (dbl (7 / 10)) (dbl (6 / 10)) None []
        = Some ([dbl (6 / 10), dbl (7 / 10)], Some (dbl (7 / 10)))"
    unfolding dbl_0_1 dbl_0_6 dbl_0_7
    by (subst gen_loop.simps, simp add: add_0_6_0_1 add_0_7_0_1)+
  then have g: "generateSamples (new_tracker (dbl (1 / 10))) (dbl (6 / 10)) (dbl (7 / 10))
       = Some ([dbl (6 / 10), dbl (7 / 10)],
               \<lparr>lastSample = Some (dbl (7 / 10)), interval = dbl (1 / 10)\<rparr>)"
    by (simp add: generateSamples_def firstSample_def new_tracker_def)
  from c g c2 g2 show ?thesis by blast
qed

text \<open>
  Claim C3, amended. For every tracker whose interval is a positive integer and whose
  \<open>lastSample\<close> is \<open>null\<close> or an integer, and every integer \<open>blockStart\<close> and
  \<open>targetSample\<close>, all of a magnitude up to \<open>2 ^ 51\<close>: the generator, consumed to its
  end, returns; \<open>countEvents\<close> returns the number of timestamps it yields, and leaves
  the tracker as it was.
\<close>

theorem countEvents_matches_generateSamples:
  assumes "safe_tracker t" "safe_position blockStart" "safe_position targetSample"
  shows "\<exists>ys t'. generateSamples t blockStart targetSample = Some (ys, t')
           \<and> fst (countEvents t blockStart targetSample) = real (length ys)
           \<and> snd (countEvents t blockStart targetSample) = t"
proof -
  from assms(1) obtain iv where iv: "interval t = of_int iv" "0 < iv" "iv \<le> 2 ^ 51"
    by (rule safe_trackerE)
  from assms(3) obtain g where g: "targetSample = of_int g" "\<bar>g\<bar> \<le> 2 ^ 51"
    by (rule safe_positionE)
  from safe_first [OF assms(1,2) iv]
  obtain s where s: "firstSample t blockStart = of_int s" "- (2 ^ 51) \<le> s" "s \<le> 2 ^ 52"
    by blast
  have sa: "\<bar>s\<bar> \<le> 2 ^ 52" using s(2,3) by simp
  show ?thesis
    unfolding g(1) generateSamples_safe [OF iv s(1) sa g(2)]
      countEvents_safe [OF iv s(1,2,3) g(2)]
    by (simp add: length_stamps)
qed

theorem countEvents_matches_generateSamples_witness:
  "safe_tracker \<lparr>lastSample = Some 256, interval = 128\<rparr>
   \<and> safe_position 301 \<and> safe_position 600
   \<and> generateSamples \<lparr>lastSample = Some 256, interval = 128\<rparr> 301 600
       = Some ([384, 512], \<lparr>lastSample = Some 512, interval = 128\<rparr>)
   \<and> fst (countEvents \<lparr>lastSample = Some 256, interval = 128\<rparr> 301 600) = 2
   \<and> snd (countEvents \<lparr>lastSample = Some 256, interval = 128\<rparr> 301 600)
       = \<lparr>lastSample = Some 256, interval = 128\<rparr>"
proof -
  let ?t = "\<lparr>lastSample = Some 256, interval = 128\<rparr>"
  have h: "safe_tracker ?t" "safe_position 301" "safe_position 600"
    by (simp_all add: safe_tracker_def safe_position_def)
  have f: "firstSample ?t 301 = of_int 384"
    using js_add_int [of 256 128] by (simp add: firstSample_def)
  have g: "generateSamples ?t 301 600 = Some ([384, 512], \<lparr>lastSample = Some 512, interval = 128\<rparr>)"
    using generateSamples_safe [of ?t 128 301 384 600, OF _ _ _ f]
    by (simp add: stamps_def n_events_def upt_rec)
  from countEvents_matches_generateSamples [OF h] g h show ?thesis
    by auto
qed

lemma run_calls_sorted:
  assumes "safe_tracker t" "list_all safe_call cs"
  shows "\<exists>outs t'. run_calls t cs = Some (outs, t') \<and> sorted_wrt (<) (concat outs)
           \<and> (\<forall>x\<in>set (concat outs). above t x)"
  using assms
proof (induction cs arbitrary: t)
  case Nil
  then show ?case by simp
next
  case (Cons c cs)
  obtain b g' where c: "c = (b, g')" by (cases c)
  have sb: "safe_position b" and sg: "safe_position g'" and rest: "list_all safe_call cs"
    using Cons.prems(2) by (simp_all add: c)
  from Cons.prems(1) obtain iv where iv: "interval t = of_int iv" "0 < iv" "iv \<le> 2 ^ 51"
    by (rule safe_trackerE)
  from sg obtain g where g: "g' = of_int g" "\<bar>g\<bar> \<le> 2 ^ 51"
    by (rule safe_positionE)
  from safe_first [OF Cons.prems(1) sb iv]
  obtain s where s: "firstSample t b = of_int s" "- (2 ^ 51) \<le> s" "s \<le> 2 ^ 52"
    and abv_s: "\<And>x. s \<le> x \<Longrightarrow> above t (of_int x)"
    by blast
  have sa: "\<bar>s\<bar> \<le> 2 ^ 52" using s(2,3) by simp
  let ?zs = "stamps iv g s"
  let ?ys = "map real_of_int ?zs"
  let ?t1 = "if ?zs = [] then t else t\<lparr>lastSample := Some (of_int (last ?zs))\<rparr>"
  have gen: "generateSamples t b g' = Some (?ys, ?t1)"
    unfolding g(1) by (rule generateSamples_safe [OF iv s(1) sa g(2)])
  have last_bounds: "s \<le> last ?zs \<and> last ?zs \<le> g" if "?zs \<noteq> []"
  proof -
    from that have "last ?zs \<in> set ?zs" by simp
    then show ?thesis
      using stamps_lower [OF iv(2)] stamps_upper [OF iv(2)] by blast
  qed
  have safe1: "safe_tracker ?t1"
  proof (cases "?zs = []")
    case True
    then show ?thesis using Cons.prems(1) by simp
  next
    case False
    from last_bounds [OF False] s(2) g(2) have "\<bar>last ?zs\<bar> \<le> 2 ^ 51" by linarith
    then have "safe_position (of_int (last ?zs))" by (rule safe_position_of_int)
    then show ?thesis
      using False Cons.prems(1) by (simp add: safe_tracker_def)
  qed
  from Cons.IH [OF safe1 rest] obtain outs t' where run: "run_calls ?t1 cs = Some (outs, t')"
    and srt: "sorted_wrt (<) (concat outs)" and abv: "\<forall>x\<in>set (concat outs). above ?t1 x"
    by blast
  have ys_sorted: "sorted_wrt (<) ?ys"
    using stamps_sorted [OF iv(2), of g s] by (simp add: sorted_wrt_map)
  have ys_above: "above t x" if "x \<in> set ?ys" for x
  proof -
    from that obtain k where "k \<in> set ?zs" "x = of_int k" by auto
    with stamps_lower [OF iv(2)] abv_s show ?thesis by blast
  qed
  have cross: "x < y" if "x \<in> set ?ys" "y \<in> set (concat outs)" for x y
  proof -
    from that(1) obtain k where k: "k \<in> set ?zs" "x = of_int k" by auto
    then have ne: "?zs \<noteq> []" by auto
    with abv that(2) have "of_int (last ?zs) < y" by (auto simp: above_def)
    moreover have "k \<le> last ?zs" using stamps_le_last [OF iv(2) k(1)] .
    ultimately show ?thesis using k(2) by simp
  qed
  have rest_above: "above t y" if "y \<in> set (concat outs)" for y
  proof (cases "?zs = []")
    case True
    with abv that show ?thesis by auto
  next
    case False
    then have "last ?zs \<in> set ?zs" by simp
    then have m: "of_int (last ?zs) \<in> set ?ys" by simp
    from cross [OF m that] ys_above [OF m] show ?thesis
      by (auto simp: above_def split: option.splits)
  qed
  have "run_calls t (c # cs) = Some (?ys # outs, t')"
    using gen run by (simp add: c)
  moreover have "sorted_wrt (<) (concat (?ys # outs))"
    using ys_sorted srt cross by (auto simp: sorted_wrt_append)
  moreover have "\<forall>x\<in>set (concat (?ys # outs)). above t x"
    using ys_above rest_above by auto
  ultimately show ?case by blast
qed

lemma fresh_128:
  "generateSamples (new_tracker 128) 0 300
     = Some ([0, 128, 256], \<lparr>lastSample = Some 256, interval = 128\<rparr>)"
  "generateSamples (new_tracker 128) 0 600
     = Some ([0, 128, 256, 384, 512], \<lparr>lastSample = Some 512, interval = 128\<rparr>)"
proof -
  have f: "firstSample (new_tracker 128) 0 = of_int 0"
    by (simp add: firstSample_def new_tracker_def)
  show "generateSamples (new_tracker 128) 0 300
     = Some ([0, 128, 256], \<lparr>lastSample = Some 256, interval = 128\<rparr>)"
    using generateSamples_safe [of "new_tracker 128" 128 0 0 300, OF _ _ _ f]
    by (simp add: stamps_def n_events_def upt_rec new_tracker_def)
  show "generateSamples (new_tracker 128) 0 600
     = Some ([0, 128, 256, 384, 512], \<lparr>lastSample = Some 512, interval = 128\<rparr>)"
    using generateSamples_safe [of "new_tracker 128" 128 0 0 600, OF _ _ _ f]
    by (simp add: stamps_def n_events_def upt_rec new_tracker_def)
qed

lemma resumed_128:
  "generateSamples \<lparr>lastSample = Some 256, interval = 128\<rparr> 301 600
     = Some ([384, 512], \<lparr>lastSample = Some 512, interval = 128\<rparr>)"
proof -
  have f: "firstSample \<lparr>lastSample = Some 256, interval = 128\<rparr> 301 = of_int 384"
    using js_add_int [of 256 128] by (simp add: firstSample_def)
  show ?thesis
    using generateSamples_safe [of "\<lparr>lastSample = Some 256, interval = 128\<rparr>" 128 301 384 600, OF _ _ _ f]
    by (simp add: stamps_def n_events_def upt_rec)
qed

text \<open>
  Claim C2, as stated, fails: the generator assigns \<open>lastSample\<close> only after its loop.
  A consumer that takes the first timestamp of \<open>generateSamples(0, 300)\<close> and abandons
  the generator leaves the fresh tracker as it was, so that the next call yields the
  timestamp 0 a second time. And with \<open>lastSample\<close> at \<open>2 ^ 53\<close> and interval 1 the sum
  \<open>lastSample + interval\<close> is \<open>lastSample\<close>: one call yields that timestamp, which the
  tracker had produced before, again and again.
\<close>

theorem restart_counterexample:
  "generateSamples_take 1 (new_tracker 128) 0 300 = ([0], new_tracker 128)
   \<and> generateSamples (new_tracker 128) 0 300
       = Some ([0, 128, 256], \<lparr>lastSample = Some 256, interval = 128\<rparr>)
   \<and> generateSamples_take 2 \<lparr>lastSample = Some 9007199254740992, interval = 1\<rparr>
         0 9007199254740992
       = ([9007199254740992, 9007199254740992],
          \<lparr>lastSample = Some 9007199254740992, interval = 1\<rparr>)"
  using fresh_128(1)
  by (simp add: generateSamples_take_def firstSample_def new_tracker_def js_add_absorbed
      numeral_eq_Suc)

text \<open>
  Claim C2, amended. On a fresh tracker with interval 128 the fully consumed calls
  \<open>generateSamples(0, 300)\<close> and then \<open>generateSamples(301, 600)\<close> yield 0, 128, 256 and
  384, 512, which together are the timestamps of the one call \<open>generateSamples(0, 600)\<close>
  on a fresh tracker. On a tracker whose interval is a positive integer and whose
  \<open>lastSample\<close> is \<open>null\<close> or an integer, every sequence of calls with integer arguments,
  all of a magnitude up to \<open>2 ^ 51\<close> and each generator consumed to its end, returns, and
  no timestamp is yielded twice.
\<close>

theorem restart_correctness:
  "generateSamples (new_tracker 128) 0 300
     = Some ([0, 128, 256], \<lparr>lastSample = Some 256, interval = 128\<rparr>)
   \<and> generateSamples \<lparr>lastSample = Some 256, interval = 128\<rparr> 301 600
     = Some ([384, 512], \<lparr>lastSample = Some 512, interval = 128\<rparr>)
   \<and> generateSamples (new_tracker 128) 0 600
     = Some ([0, 128, 256, 384, 512], \<lparr>lastSample = Some 512, interval = 128\<rparr>)
   \<and> set [0, 128, 256] \<union> set [384, 512] = set [0, 128, 256, 384, 512 :: real]
   \<and> (\<forall>t cs. safe_tracker t \<and> list_all safe_call cs \<longrightarrow>
         (\<exists>outs t'. run_calls t cs = Some (outs, t') \<and> distinct (concat outs)))"
proof -
  have "set [0, 128, 256] \<union> set [384, 512] = set [0, 128, 256, 384, 512 :: real]"
    by auto
  moreover have "\<exists>outs t'. run_calls t cs = Some (outs, t') \<and> distinct (concat outs)"
    if "safe_tracker t \<and> list_all safe_call cs" for t cs
    using run_calls_sorted [of t cs] that by (auto simp: strict_sorted_iff)
  ultimately show ?thesis
    using fresh_128 resumed_128 by blast
qed

theorem restart_correctness_witness:
  "safe_tracker (new_tracker 128)
   \<and> list_all safe_call [(0, 300), (301, 600), (301, 600)]
   \<and> (\<exists>outs t'. run_calls (new_tracker 128) [(0, 300), (301, 600), (301, 600)] = Some (outs, t')
         \<and> distinct (concat outs))"
proof -
  have h: "safe_tracker (new_tracker 128) \<and> list_all safe_call [(0, 300), (301, 600), (301, 600)]"
    by (simp add: safe_tracker_def safe_position_def new_tracker_def)
  from restart_correctness have
    "\<forall>t cs. safe_tracker t \<and> list_all safe_call cs \<longrightarrow>
       (\<exists>outs t'. run_calls t cs = Some (outs, t') \<and> distinct (concat outs))"
    by (elim conjE)
  with h show ?thesis
    by blast
qed

section \<open>Properties of the scheduler\<close>

lemma length_store [simp]: "length (store buf i v) = length buf"
  by (simp add: store_def)

lemma nth_store: "store buf i v ! j = (if j = i \<and> i < length buf then fround v else buf ! j)"
  by (simp add: store_def)

text \<open>
  Single-precision numbers are stored as they are; the double 0.3 is stored as
  \<open>5033165 / 2 ^ 24\<close>, which is 0.300000011920928955078125.
\<close>

lemma fround_values:
  "fround 0 = Finite 0" "fround 1 = Finite 1" "fround 2 = Finite 2" "fround 5 = Finite 5"
  "fround 100 = Finite 100" "fround 228 = Finite 228"
  using fround_of_int [of 0] fround_of_int [of 1] fround_of_int [of 2] fround_of_int [of 5]
    fround_of_int [of 100] fround_of_int [of 228]
  by simp_all

lemma fround_half: "fround (1 / 2) = Finite (1 / 2)"
  unfolding fround_def single_def
  by (subst binary_round_eval [of "- 1"]) (simp_all add: round_even_def power_int_minus)

lemma dbl_0_3: "dbl (3 / 10) = 5404319552844595 / 18014398509481984"
  unfolding dbl_def
  by (subst binary_round_eval [of "- 2"]) (simp_all add: round_even_def power_int_minus)

lemma fround_0_3: "fround (dbl (3 / 10)) = Finite (5033165 / 16777216)"
  unfolding dbl_0_3 fround_def single_def
  by (subst binary_round_eval [of "- 2"]) (simp_all add: round_even_def power_int_minus)

lemma exec_add_amp [simp]:
  "exec (AddAmplitudeEvent sample v) s
     = (Some (fst (addAmplitudeEvent sample v s)), snd (addAmplitudeEvent sample v s))"
  by (simp split: prod.splits)

lemma exec_add_freq [simp]:
  "exec (AddFrequencyEvent sample f) s
     = (Some (fst (addFrequencyEvent sample f s)), snd (addFrequencyEvent sample f s))"
  by (simp split: prod.splits)

lemma run_Cons [simp]:
  "run (c # cs) s = (fst (exec c s) # fst (run cs (snd (exec c s))), snd (run cs (snd (exec c s))))"
  by (simp split: prod.splits)

declare exec.simps(3,4) [simp del] run.simps(2) [simp del]

lemma encoding_buffer:
  assumes "7 \<le> length (ampBuffer s)" "2 \<le> maxEventsPerSine s"
  shows "getAmplitudeBuffer (snd (run [BeginFrame, BeginSine 5 False, AddAmplitudeEvent 100 0.5,
            AddAmplitudeEvent 228 (dbl (3 / 10)), EndSine] s))
         = [Finite 5, Finite 2, Finite 0, Finite 100, Finite (1 / 2), Finite 228,
            Finite (5033165 / 16777216)]"
proof -
  define r where "r = snd (run [BeginFrame, BeginSine 5 False, AddAmplitudeEvent 100 0.5,
            AddAmplitudeEvent 228 (dbl (3 / 10)), EndSine] s)"
  have off: "ampOffset r = 7" and buf: "ampBuffer r =
     store (store (store (store (store (store (store (ampBuffer s) 0 5) 2 0) 3 100) 4 (1 / 2)) 5 228)
       6 (dbl (3 / 10))) 1 2"
    using assms(2) unfolding r_def
    by (simp_all add: beginFrame_def beginSine_def addAmplitudeEvent_def endSine_def
        override_flag_def numeral_2_eq_2)
  have "getAmplitudeBuffer r = [Finite 5, Finite 2, Finite 0, Finite 100, Finite (1 / 2),
      Finite 228, Finite (5033165 / 16777216)]"
  proof (rule nth_equalityI)
    show "length (getAmplitudeBuffer r) = length [Finite 5, Finite 2, Finite 0, Finite 100,
        Finite (1 / 2), Finite 228, Finite (5033165 / 16777216)]"
      using assms(1) by (simp add: getAmplitudeBuffer_def off buf)
    fix i assume "i < length (getAmplitudeBuffer r)"
    then have "i < 7" by (simp add: getAmplitudeBuffer_def off)
    then consider "i = 0" | "i = 1" | "i = 2" | "i = 3" | "i = 4" | "i = 5" | "i = 6"
      by linarith
    then show "getAmplitudeBuffer r ! i = [Finite 5, Finite 2, Finite 0, Finite 100,
        Finite (1 / 2), Finite 228, Finite (5033165 / 16777216)] ! i"
      using assms(1)
      by cases (auto simp: getAmplitudeBuffer_def off buf nth_store fround_values fround_half
          fround_0_3)
  qed
  then show ?thesis
    unfolding r_def .
qed

lemma new_scheduler_room:
  "7 \<le> length (ampBuffer (new_scheduler 32 8))" "2 \<le> maxEventsPerSine (new_scheduler 32 8)"
  by (simp_all add: new_scheduler_def bufferSize_def)

text \<open>
  Claim C5, as stated, fails: the amplitude buffer is a \<open>Float32Array\<close> and 0.3 is not a
  single-precision number. After the calls of the claim on a fresh scheduler the seventh
  element of the written prefix is \<open>5033165 / 2 ^ 24\<close>, which is neither three tenths
  nor the double that the literal 0.3 denotes.
\<close>

theorem scheduler_encoding_counterexample:
  "getAmplitudeBuffer (snd (run [BeginFrame, BeginSine 5 False, AddAmplitudeEvent 100 0.5,
       AddAmplitudeEvent 228 (dbl (3 / 10)), EndSine] (new_scheduler 32 8))) ! 6
     = Finite (5033165 / 16777216)
   \<and> (5033165 / 16777216 :: real) \<noteq> 3 / 10
   \<and> (5033165 / 16777216 :: real) \<noteq> dbl (3 / 10)"
proof -
  have "getAmplitudeBuffer (snd (run [BeginFrame, BeginSine 5 False, AddAmplitudeEvent 100 0.5,
       AddAmplitudeEvent 228 (dbl (3 / 10)), EndSine] (new_scheduler 32 8))) ! 6
     = Finite (5033165 / 16777216)"
    unfolding encoding_buffer [OF new_scheduler_room] by simp
  moreover have "(5033165 / 16777216 :: real) \<noteq> 3 / 10"
    by simp
  moreover have "(5033165 / 16777216 :: real) \<noteq> dbl (3 / 10)"
    unfolding dbl_0_3 by simp
  ultimately show ?thesis
    by (intro conjI)
qed

text \<open>
  Claim C5, amended. On a scheduler whose amplitude buffer holds at least seven elements
  and whose cap is at least two (a fresh one, or one reset by \<open>beginFrame\<close> after earlier
  frames), the calls \<open>beginFrame(); beginSine(5); addAmplitudeEvent(100, 0.5);
  addAmplitudeEvent(228, 0.3); endSine()\<close> leave the written prefix of the amplitude
  buffer equal to 5, 2, 0, 100, 0.5, 228 and \<open>5033165 / 2 ^ 24\<close>, the single-precision
  number nearest to 0.3.
\<close>

theorem scheduler_encoding:
  assumes "7 \<le> length (ampBuffer s)" "2 \<le> maxEventsPerSine s"
  shows "getAmplitudeBuffer (snd (run [BeginFrame, BeginSine 5 False, AddAmplitudeEvent 100 0.5,
            AddAmplitudeEvent 228 (dbl (3 / 10)), EndSine] s))
         = [Finite 5, Finite 2, Finite 0, Finite 100, Finite (1 / 2), Finite 228,
            Finite (5033165 / 16777216)]"
  using assms by (rule encoding_buffer)

theorem scheduler_encoding_witness:
  "7 \<le> length (ampBuffer (new_scheduler 32 8)) \<and> 2 \<le> maxEventsPerSine (new_scheduler 32 8)
   \<and> getAmplitudeBuffer (snd (run [BeginFrame, BeginSine 5 False, AddAmplitudeEvent 100 0.5,
        AddAmplitudeEvent 228 (dbl (3 / 10)), EndSine] (new_scheduler 32 8)))
       = [Finite 5, Finite 2, Finite 0, Finite 100, Finite (1 / 2), Finite 228,
          Finite (5033165 / 16777216)]"
proof -
  have h1: "7 \<le> length (ampBuffer (new_scheduler 32 8))"
    by (simp add: new_scheduler_def bufferSize_def)
  have h2: "2 \<le> maxEventsPerSine (new_scheduler 32 8)"
    by (simp add: new_scheduler_def)
  from scheduler_encoding [OF h1 h2] h1 h2 show ?thesis
    by blast
qed

lemma run_adds:
  assumes "list_all is_add ops"
    and "currentAmpCount s + length (filter is_amp_add ops) \<le> maxEventsPerSine s"
  shows "(\<forall>i<length ops. is_amp_add (ops ! i) \<longrightarrow> fst (run ops s) ! i = Some True)
         \<and> currentAmpCount (snd (run ops s)) = currentAmpCount s + length (filter is_amp_add ops)
         \<and> maxEventsPerSine (snd (run ops s)) = maxEventsPerSine s"
  using assms
proof (induction ops arbitrary: s)
  case Nil
  then show ?case by simp
next
  case (Cons c cs)
  let ?s1 = "snd (exec c s)"
  have c: "is_add c" using Cons.prems(1) by simp
  have cnt: "currentAmpCount ?s1 = currentAmpCount s + (if is_amp_add c then 1 else 0)"
    and cap: "maxEventsPerSine ?s1 = maxEventsPerSine s"
    and res: "is_amp_add c \<Longrightarrow> fst (exec c s) = Some True"
    using c Cons.prems(2)
    by (cases c; simp add: addAmplitudeEvent_def addFrequencyEvent_def)+
  have "currentAmpCount ?s1 + length (filter is_amp_add cs) \<le> maxEventsPerSine ?s1"
    using Cons.prems(2) cnt cap by (cases "is_amp_add c") simp_all
  with Cons.IH [of ?s1] Cons.prems(1)
  have ih: "\<forall>i<length cs. is_amp_add (cs ! i) \<longrightarrow> fst (run cs ?s1) ! i = Some True"
    "currentAmpCount (snd (run cs ?s1)) = currentAmpCount ?s1 + length (filter is_amp_add cs)"
    "maxEventsPerSine (snd (run cs ?s1)) = maxEventsPerSine ?s1"
    by simp_all
  have run: "run (c # cs) s = (fst (exec c s) # fst (run cs ?s1), snd (run cs ?s1))"
    by simp
  have "\<forall>i<length (c # cs). is_amp_add ((c # cs) ! i) \<longrightarrow> fst (run (c # cs) s) ! i = Some True"
  proof (intro allI impI)
    fix i assume "i < length (c # cs)" "is_amp_add ((c # cs) ! i)"
    then show "fst (run (c # cs) s) ! i = Some True"
      using res ih(1) by (cases i) (simp_all add: run)
  qed
  then show ?case
    using ih cnt cap by (simp add: run)
qed

text \<open>
  Claim C6. After \<open>beginSine\<close>, let any calls of \<open>addAmplitudeEvent\<close> and
  \<open>addFrequencyEvent\<close> follow, with as many \<open>addAmplitudeEvent\<close> calls as the cap
  \<open>maxEventsPerSine\<close>. Each of these \<open>addAmplitudeEvent\<close> calls returns true, and one
  more \<open>addAmplitudeEvent\<close> returns false and leaves the whole scheduler state as it was
  after them.
\<close>

theorem cap_overflow_rejected:
  assumes "list_all is_add ops"
    and "length (filter is_amp_add ops) = maxEventsPerSine s"
  shows "(\<forall>i<length ops. is_amp_add (ops ! i) \<longrightarrow>
            fst (run ops (beginSine sineId override s)) ! i = Some True)
         \<and> addAmplitudeEvent sample v (snd (run ops (beginSine sineId override s)))
             = (False, snd (run ops (beginSine sineId override s)))"
proof -
  let ?s0 = "beginSine sineId override s"
  have "currentAmpCount ?s0 + length (filter is_amp_add ops) \<le> maxEventsPerSine ?s0"
    using assms(2) by (simp add: beginSine_def)
  from run_adds [OF assms(1) this]
  have a: "\<forall>i<length ops. is_amp_add (ops ! i) \<longrightarrow> fst (run ops ?s0) ! i = Some True"
    and b: "currentAmpCount (snd (run ops ?s0)) = maxEventsPerSine (snd (run ops ?s0))"
    using assms(2) by (simp_all add: beginSine_def)
  from b have "addAmplitudeEvent sample v (snd (run ops ?s0)) = (False, snd (run ops ?s0))"
    by (simp add: addAmplitudeEvent_def)
  with a show ?thesis by blast
qed

theorem cap_overflow_rejected_witness:
  "list_all is_add [AddAmplitudeEvent 100 0.5, AddFrequencyEvent 100 440, AddAmplitudeEvent 228 0.3]
   \<and> length (filter is_amp_add
        [AddAmplitudeEvent 100 0.5, AddFrequencyEvent 100 440, AddAmplitudeEvent 228 0.3])
       = maxEventsPerSine (new_scheduler 1 2)
   \<and> fst (run [AddAmplitudeEvent 100 0.5, AddFrequencyEvent 100 440, AddAmplitudeEvent 228 0.3]
        (beginSine 5 False (new_scheduler 1 2))) ! 2 = Some True
   \<and> addAmplitudeEvent 356 0.1
        (snd (run [AddAmplitudeEvent 100 0.5, AddFrequencyEvent 100 440, AddAmplitudeEvent 228 0.3]
           (beginSine 5 False (new_scheduler 1 2))))
       = (False, snd (run [AddAmplitudeEvent 100 0.5, AddFrequencyEvent 100 440,
            AddAmplitudeEvent 228 0.3] (beginSine 5 False (new_scheduler 1 2))))"
proof -
  let ?ops = "[AddAmplitudeEvent 100 0.5, AddFrequencyEvent 100 440, AddAmplitudeEvent 228 0.3]"
  have h1: "list_all is_add ?ops"
    by simp
  have h2: "length (filter is_amp_add ?ops) = maxEventsPerSine (new_scheduler 1 2)"
    by (simp add: new_scheduler_def)
  have i: "2 < length ?ops" "is_amp_add (?ops ! 2)"
    by simp_all
  from cap_overflow_rejected [OF h1 h2, of 5 False 356 "0.1"] i h1 h2 show ?thesis
    by blast
qed

text \<open>
  Every change one call makes to a buffer is at an index listed by \<open>amp_stores\<close> and
  \<open>freq_stores\<close>, and the buffers keep their lengths.
\<close>

lemma exec_stores_frame:
  "length (ampBuffer (snd (exec c s))) = length (ampBuffer s)
   \<and> length (freqBuffer (snd (exec c s))) = length (freqBuffer s)
   \<and> (\<forall>i. i \<notin> set (amp_stores c s) \<longrightarrow> ampBuffer (snd (exec c s)) ! i = ampBuffer s ! i)
   \<and> (\<forall>i. i \<notin> set (freq_stores c s) \<longrightarrow> freqBuffer (snd (exec c s)) ! i = freqBuffer s ! i)"
  by (cases c) (simp_all add: beginFrame_def beginSine_def addAmplitudeEvent_def
      addFrequencyEvent_def endSine_def nth_store)

text \<open>
  Claim C7, as stated, fails: nothing limits the number of \<open>beginSine\<close> calls in a frame.
  A scheduler built for one sine with cap one has capacity 5; a second \<open>beginSine\<close> in
  the same frame stores at the indices 5 and 7.
\<close>

theorem capacity_counterexample:
  "run_amp_stores [BeginFrame, BeginSine 1 False, AddAmplitudeEvent 0 0.5, EndSine, BeginSine 2 False]
      (new_scheduler 1 1) = [0, 2, 3, 4, 1, 5, 7]
   \<and> length (ampBuffer (new_scheduler 1 1)) = 5"
  by (simp add: new_scheduler_def bufferSize_def beginFrame_def beginSine_def addAmplitudeEvent_def
      endSine_def)

lemma sched_inv_step:
  assumes "sched_inv bound s" "c \<noteq> BeginFrame"
    and "bound' = (if is_begin_sine c then bound + (3 + maxEventsPerSine s * 2) else bound)"
  shows "sched_inv bound' (snd (exec c s))
         \<and> (\<forall>i\<in>set (amp_stores c s). i < bound') \<and> (\<forall>i\<in>set (freq_stores c s). i < bound')"
  using assms
  by (cases c) (auto simp: sched_inv_def beginSine_def addAmplitudeEvent_def
      addFrequencyEvent_def endSine_def)

lemma exec_maxEvents [simp]: "maxEventsPerSine (snd (exec c s)) = maxEventsPerSine s"
  by (cases c) (simp_all add: beginFrame_def beginSine_def addAmplitudeEvent_def
      addFrequencyEvent_def endSine_def)

lemma run_stores_bounded:
  assumes "sched_inv bound s" "BeginFrame \<notin> set ops"
  shows "(\<forall>i\<in>set (run_amp_stores ops s). i < bound + sines_begun ops * (3 + maxEventsPerSine s * 2))
       \<and> (\<forall>i\<in>set (run_freq_stores ops s). i < bound + sines_begun ops * (3 + maxEventsPerSine s * 2))"
  using assms
proof (induction ops arbitrary: s bound)
  case Nil
  then show ?case by simp
next
  case (Cons c cs)
  let ?C = "3 + maxEventsPerSine s * 2"
  let ?b = "if is_begin_sine c then bound + ?C else bound"
  have c: "c \<noteq> BeginFrame" and cs: "BeginFrame \<notin> set cs"
    using Cons.prems(2) by auto
  from sched_inv_step [OF Cons.prems(1) c refl]
  have inv: "sched_inv ?b (snd (exec c s))"
    and now: "\<forall>i\<in>set (amp_stores c s). i < ?b" "\<forall>i\<in>set (freq_stores c s). i < ?b"
    by blast+
  have total: "?b + sines_begun cs * ?C = bound + sines_begun (c # cs) * ?C"
    by (simp add: sines_begun_def)
  from Cons.IH [OF inv cs]
  have later: "\<forall>i\<in>set (run_amp_stores cs (snd (exec c s))). i < bound + sines_begun (c # cs) * ?C"
    "\<forall>i\<in>set (run_freq_stores cs (snd (exec c s))). i < bound + sines_begun (c # cs) * ?C"
    using total by simp_all
  have "?b \<le> bound + sines_begun (c # cs) * ?C"
    using total by linarith
  with now have "\<forall>i\<in>set (amp_stores c s). i < bound + sines_begun (c # cs) * ?C"
    "\<forall>i\<in>set (freq_stores c s). i < bound + sines_begun (c # cs) * ?C"
    by fastforce+
  with later show ?case
    by auto
qed

text \<open>
  Claim C7, amended. Let the buffers have the capacity \<open>maxSines * (3 + maxEventsPerSine * 2)\<close>.
  In a frame that starts with \<open>beginFrame\<close>, in which \<open>beginSine\<close> is called at most
  \<open>maxSines\<close> times and every event and every \<open>endSine\<close> follows a \<open>beginSine\<close> of the
  frame, every store into either buffer is at an index below the capacity.
\<close>

theorem writes_within_capacity:
  assumes "length (ampBuffer s) = bufferSize maxSines (maxEventsPerSine s)"
    and "length (freqBuffer s) = bufferSize maxSines (maxEventsPerSine s)"
    and "in_frame ops" and "sines_begun ops \<le> maxSines"
  shows "(\<forall>i\<in>set (run_amp_stores (BeginFrame # ops) s). i < length (ampBuffer s))
       \<and> (\<forall>i\<in>set (run_freq_stores (BeginFrame # ops) s). i < length (freqBuffer s))"
proof (cases ops)
  case Nil
  then show ?thesis by simp
next
  case (Cons c cs)
  let ?C = "3 + maxEventsPerSine s * 2"
  obtain sineId override where c: "c = BeginSine sineId override"
    using assms(3) Cons by (cases c) (simp_all add: in_frame_def)
  let ?s1 = "beginSine sineId override (beginFrame s)"
  have nf: "BeginFrame \<notin> set cs"
    using assms(3) Cons by (simp add: in_frame_def)
  have inv: "sched_inv ?C ?s1"
    by (simp add: sched_inv_def beginSine_def beginFrame_def)
  have cap: "maxEventsPerSine ?s1 = maxEventsPerSine s"
    by (simp add: beginSine_def beginFrame_def)
  have "Suc (sines_begun cs) \<le> maxSines"
    using assms(4) Cons c by (simp add: sines_begun_def)
  then have "Suc (sines_begun cs) * ?C \<le> maxSines * ?C"
    by (rule mult_le_mono1)
  then have le: "?C + sines_begun cs * ?C \<le> bufferSize maxSines (maxEventsPerSine s)"
    by (simp add: bufferSize_def)
  from run_stores_bounded [OF inv nf] cap le
  have "\<forall>i\<in>set (run_amp_stores cs ?s1). i < bufferSize maxSines (maxEventsPerSine s)"
    "\<forall>i\<in>set (run_freq_stores cs ?s1). i < bufferSize maxSines (maxEventsPerSine s)"
    by fastforce+
  moreover have "0 < bufferSize maxSines (maxEventsPerSine s)"
    "2 < bufferSize maxSines (maxEventsPerSine s)"
    using le by simp_all
  ultimately show ?thesis
    by (simp add: Cons c beginFrame_def assms(1,2))
qed

theorem writes_within_capacity_witness:
  "length (ampBuffer (new_scheduler 2 1)) = bufferSize 2 (maxEventsPerSine (new_scheduler 2 1))
   \<and> length (freqBuffer (new_scheduler 2 1)) = bufferSize 2 (maxEventsPerSine (new_scheduler 2 1))
   \<and> in_frame [BeginSine 1 False, AddAmplitudeEvent 0 0.5, AddAmplitudeEvent 8 0.25, EndSine,
        BeginSine 2 True, AddFrequencyEvent 0 220, EndSine]
   \<and> sines_begun [BeginSine 1 False, AddAmplitudeEvent 0 0.5, AddAmplitudeEvent 8 0.25, EndSine,
        BeginSine 2 True, AddFrequencyEvent 0 220, EndSine] \<le> 2
   \<and> list_all (\<lambda>i. i < length (ampBuffer (new_scheduler 2 1)))
        (run_amp_stores [BeginFrame, BeginSine 1 False, AddAmplitudeEvent 0 0.5,
           AddAmplitudeEvent 8 0.25, EndSine, BeginSine 2 True, AddFrequencyEvent 0 220, EndSine]
           (new_scheduler 2 1))"
proof -
  let ?ops = "[BeginSine 1 False, AddAmplitudeEvent 0 0.5, AddAmplitudeEvent 8 0.25, EndSine,
        BeginSine 2 True, AddFrequencyEvent 0 220, EndSine]"
  have h1: "length (ampBuffer (new_scheduler 2 1)) = bufferSize 2 (maxEventsPerSine (new_scheduler 2 1))"
    and h2: "length (freqBuffer (new_scheduler 2 1)) = bufferSize 2 (maxEventsPerSine (new_scheduler 2 1))"
    by (simp_all add: new_scheduler_def)
  have h3: "in_frame ?ops"
    by (simp add: in_frame_def)
  have h4: "sines_begun ?ops \<le> 2"
    by (simp add: sines_begun_def)
  from writes_within_capacity [OF h1 h2 h3 h4] h1 h2 h3 h4 show ?thesis
    unfolding list_all_iff by blast
qed

section \<open>Properties of the phase accumulator\<close>

lemma pa_run_skip_sinAt: "pa_run ops pa = pa_run (filter (\<lambda>c. \<not> is_sinAt c) ops) pa"
proof (induction ops arbitrary: pa)
  case Nil
  show ?case by simp
next
  case (Cons c cs)
  show ?case
  proof (cases c)
    case (SinAt a b d)
    then show ?thesis using Cons.IH [of pa] by (simp add: sinAt_def Let_def)
  qed (use Cons.IH in simp_all)
qed

text \<open>
  Claim C8. \<open>sinAt\<close> leaves the accumulator as it was; a second call with the same
  arguments returns the same value; and an \<open>advance\<close> after any sequence of calls
  returns the same phase and state as after the same sequence with its \<open>sinAt\<close> calls
  removed.
\<close>

theorem sinAt_pure:
  "snd (sinAt sampleOffset sampleRate phaseOffset pa) = pa
   \<and> fst (sinAt sampleOffset sampleRate phaseOffset (snd (sinAt sampleOffset sampleRate phaseOffset pa)))
       = fst (sinAt sampleOffset sampleRate phaseOffset pa)
   \<and> advance currentSample sr (pa_run ops pa)
       = advance currentSample sr (pa_run (filter (\<lambda>c. \<not> is_sinAt c) ops) pa)"
  using pa_run_skip_sinAt [of ops pa] by (simp add: sinAt_def Let_def)

text \<open>
  Claim C9 fails on the code: the remainder \<open>%\<close> keeps the sign of a negative dividend.
  With the rate set to \<open>-1\<close>, \<open>advance(12000, 48000)\<close> on a new accumulator leaves the
  phase \<open>-0.25\<close>, and \<open>resetPhase(-0.5)\<close> leaves the phase \<open>-0.5\<close>. Every number in
  the two runs is computed without rounding in double precision.
\<close>

theorem phase_negative:
  "getPhase (pa_run [SetRate (- 1), Advance 12000 48000] (new_phase_accumulator 1)) = - (1 / 4)
   \<and> getPhase (pa_run [ResetPhase (- (1 / 2))] (new_phase_accumulator 1)) = - (1 / 2)"
  by (simp add: getPhase_def advance_def setRate_def resetPhase_def new_phase_accumulator_def
      js_rem_def js_trunc_def Let_def)

text \<open>
  With rates and phase arguments that are not negative and positive sample rates the
  phase does stay in the unit interval.
\<close>

lemma js_rem_unit: "0 \<le> x \<Longrightarrow> 0 \<le> js_rem x 1 \<and> js_rem x 1 < 1"
  by (simp add: js_rem_def js_trunc_def) linarith

lemma phase_normalized_nonneg:
  assumes "list_all pa_op_nonneg ops" "0 \<le> phase pa" "phase pa < 1" "0 \<le> rate pa"
  shows "0 \<le> getPhase (pa_run ops pa) \<and> getPhase (pa_run ops pa) < 1"
  using assms
proof (induction ops arbitrary: pa)
  case Nil
  then show ?case by (simp add: getPhase_def)
next
  case (Cons c cs)
  let ?pa = "snd (pa_exec c pa)"
  have "0 \<le> phase ?pa \<and> phase ?pa < 1 \<and> 0 \<le> rate ?pa"
  proof (cases c)
    case (SetRate r)
    then show ?thesis using Cons.prems by (simp add: setRate_def)
  next
    case (Advance cs' sr)
    have "0 \<le> phase pa + (cs' - pa_lastSample pa) / sr * rate pa" if "cs' - pa_lastSample pa > 0"
      using that Cons.prems Advance by simp
    then show ?thesis
      using Cons.prems Advance js_rem_unit by (simp add: advance_def Let_def)
  next
    case (SinAt a b d)
    then show ?thesis using Cons.prems by (simp add: sinAt_def Let_def)
  next
    case (ResetPhase p)
    then show ?thesis using Cons.prems js_rem_unit by (simp add: resetPhase_def)
  qed
  with Cons.IH [of ?pa] Cons.prems(1) show ?case by simp
qed

section \<open>Properties of the modulator bank\<close>

lemma comb_formula:
  assumes "comb_only st"
  shows "combinedAmplitude sr st sampleOffset i
           = 0.5 + 0.5 * cos (real (i + 1) * pi / combSpacing st + combPhase st)"
  using assms
  by (simp add: comb_only_def combinedAmplitude_def evaluateLfo_def evaluateRandom_def
      evaluateLowpass_def evaluateHighpass_def evaluateComb_def evaluatePwm_def
      evaluateWavefolder_def evaluateBarberPole_def evaluateFalling_def evaluateVowel_def
      evaluateKeyboardGate_def Let_def)

lemma cos_odd_pi: "cos ((2 * real k + 1) * pi) = - 1"
proof -
  have "(2 * real k + 1) * pi = 2 * real k * pi + pi"
    by (simp add: algebra_simps)
  then have "cos ((2 * real k + 1) * pi) = cos (2 * real k * pi + pi)"
    by (rule arg_cong)
  also have "\<dots> = - 1"
    unfolding cos_add cos_2npi sin_2npi by simp
  finally show ?thesis .
qed

lemma cos_half_odd_pi: "cos ((2 * real k + 1) * pi / 2) = 0"
proof -
  have "(2 * real k + 1) * pi / 2 = real k * pi + pi / 2"
    by (simp add: algebra_simps)
  then have "cos ((2 * real k + 1) * pi / 2) = cos (real k * pi + pi / 2)"
    by (rule arg_cong)
  also have "\<dots> = 0"
    unfolding cos_add sin_npi by simp
  finally show ?thesis .
qed

lemma comb_state:
  "comb_only comb_only_state \<and> combSpacing comb_only_state = 4 \<and> combPhase comb_only_state = 0"
  by (simp add: comb_only_def comb_only_state_def run_messages_def onmessage_def messageHandlers_def
      new_processor_def Let_def)

text \<open>
  Claim C1, as stated, fails in its second half. Partial index \<open>i\<close> is harmonic \<open>i + 1\<close>.
  On the processor with only the comb enabled (spacing 4, phase 0, base frequency 110),
  harmonics 4 and 12 evaluate to 0, the trough and not the peak, and harmonic 2
  evaluates to one half, not near 0.
\<close>

theorem comb_peaks_counterexample:
  "combinedAmplitude 48000 comb_only_state 0 3 = 0
   \<and> combinedAmplitude 48000 comb_only_state 0 11 = 0
   \<and> combinedAmplitude 48000 comb_only_state 0 1 = 1 / 2"
proof -
  have f: "combinedAmplitude 48000 comb_only_state 0 j = 0.5 + 0.5 * cos (real (j + 1) * pi / 4)" for j
    using comb_formula [of comb_only_state 48000 0 j] comb_state by simp
  have "cos (real (3 + 1) * pi / 4) = - 1" using cos_odd_pi [of 0] by simp
  moreover have "cos (real (11 + 1) * pi / 4) = - 1" using cos_odd_pi [of 1] by simp
  moreover have "cos (real (1 + 1) * pi / 4) = 0" using cos_half_odd_pi [of 0] by simp
  ultimately show ?thesis
    by (simp only: f) simp
qed

text \<open>
  Claim C1, amended. With only the comb modulator enabled, spacing 4 and phase 0, the
  unscaled combined amplitude of harmonic \<open>n = i + 1\<close> is \<open>0.5 + 0.5 * cos (n * pi / 4)\<close>,
  at every sample offset and sample rate; harmonics 4 and 12 evaluate to 0 (trough),
  harmonics 2, 6 and 10 to one half, and harmonics 8 and 16 to 1 (peak).
\<close>

theorem comb_only_amplitude:
  assumes "comb_only st" "combSpacing st = 4" "combPhase st = 0"
  shows "combinedAmplitude sr st sampleOffset i = 0.5 + 0.5 * cos (real (i + 1) * pi / 4)
       \<and> combinedAmplitude sr st sampleOffset 3 = 0
       \<and> combinedAmplitude sr st sampleOffset 11 = 0
       \<and> combinedAmplitude sr st sampleOffset 1 = 0.5
       \<and> combinedAmplitude sr st sampleOffset 5 = 0.5
       \<and> combinedAmplitude sr st sampleOffset 9 = 0.5
       \<and> combinedAmplitude sr st sampleOffset 7 = 1
       \<and> combinedAmplitude sr st sampleOffset 15 = 1"
proof -
  have f: "combinedAmplitude sr st sampleOffset j = 0.5 + 0.5 * cos (real (j + 1) * pi / 4)" for j
    using comb_formula [OF assms(1)] assms(2,3) by simp
  have "cos (real (3 + 1) * pi / 4) = - 1" using cos_odd_pi [of 0] by simp
  moreover have "cos (real (11 + 1) * pi / 4) = - 1" using cos_odd_pi [of 1] by simp
  moreover have "cos (real (1 + 1) * pi / 4) = 0" using cos_half_odd_pi [of 0] by simp
  moreover have "cos (real (5 + 1) * pi / 4) = 0" using cos_half_odd_pi [of 1] by simp
  moreover have "cos (real (9 + 1) * pi / 4) = 0" using cos_half_odd_pi [of 2] by simp
  moreover have "cos (real (7 + 1) * pi / 4) = 1" using cos_2npi [of 1] by simp
  moreover have "cos (real (15 + 1) * pi / 4) = 1" using cos_2npi [of 2] by simp
  ultimately show ?thesis
    by (simp only: f) simp
qed

theorem comb_only_amplitude_witness:
  "comb_only comb_only_state \<and> combSpacing comb_only_state = 4 \<and> combPhase comb_only_state = 0
   \<and> baseFreq comb_only_state = 110
   \<and> combinedAmplitude 48000 comb_only_state 128 7 = 1
   \<and> combinedAmplitude 48000 comb_only_state 128 5 = 0.5"
proof -
  have h: "comb_only comb_only_state" "combSpacing comb_only_state = 4"
    "combPhase comb_only_state = 0"
    using comb_state by simp_all
  have b: "baseFreq comb_only_state = 110"
    by (simp add: comb_only_state_def run_messages_def onmessage_def messageHandlers_def
        new_processor_def Let_def)
  from comb_only_amplitude [OF h, of 48000 128] h b show ?thesis
    by blast
qed

section \<open>Properties of the message handlers\<close>

lemma number_or_falsy: "falsy_number v \<Longrightarrow> number_or v d = d"
  by (auto simp: falsy_number_def number_or_def)

lemma number_or_nonzero: "d \<noteq> 0 \<Longrightarrow> number_or v d \<noteq> 0"
  by (simp add: number_or_def split: option.splits)

lemma handlers_preserve: "list_all (\<lambda>kh. preserves_nonzero (snd kh)) (messageHandlers ids rnd)"
  unfolding messageHandlers_def list.pred_inject snd_conv preserves_nonzero_def
  by (intro conjI allI impI TrueI)
     (simp_all add: nonzero_params_def number_or_nonzero startSynth_def setRate_def Let_def)

lemma onmessage_nonzero:
  assumes "nonzero_params st"
  shows "nonzero_params (onmessage ids rnd msg st)"
proof (cases "map_of (messageHandlers ids rnd) (fst msg)")
  case None
  then show ?thesis using assms by (simp add: onmessage_def)
next
  case (Some h)
  then have "(fst msg, h) \<in> set (messageHandlers ids rnd)"
    by (rule map_of_SomeD)
  with handlers_preserve [of ids rnd] have "preserves_nonzero h"
    by (auto simp: list_all_iff)
  with assms Some show ?thesis
    by (simp add: onmessage_def preserves_nonzero_def)
qed

lemma run_messages_nonzero:
  assumes "nonzero_params st"
  shows "nonzero_params (run_messages ids rnd msgs st)"
  using assms unfolding run_messages_def
  by (induction msgs arbitrary: st) (simp_all add: onmessage_nonzero)

text \<open>
  Claim C10. For each of the nineteen parameters whose handler has a default other than
  zero, a payload that \<open>Number\<close> turns into zero or \<open>NaN\<close> makes the handler store the
  default (110 for \<open>set-base-freq\<close>, 1 for \<open>set-keyboard-pitch-ratio\<close>, and so on); and
  after any sequence of messages to a newly constructed processor none of these
  parameters is zero.
\<close>

theorem falsy_payload_stores_default:
  assumes "falsy_number v"
  shows "baseFreq (onmessage ids rnd (''set-base-freq'', v) st) = 110
       \<and> rate (lfo (onmessage ids rnd (''set-lfo-rate'', v) st)) = 1
       \<and> randomChangeRate (onmessage ids rnd (''set-random-change-rate'', v) st) = 2
       \<and> lowpassCutoff (onmessage ids rnd (''set-lowpass-cutoff'', v) st) = 10
       \<and> lowpassSlope (onmessage ids rnd (''set-lowpass-slope'', v) st) = 2
       \<and> lowpassResonance (onmessage ids rnd (''set-lowpass-resonance'', v) st) = 0.5
       \<and> highpassCutoff (onmessage ids rnd (''set-highpass-cutoff'', v) st) = 8
       \<and> highpassSlope (onmessage ids rnd (''set-highpass-slope'', v) st) = 2
       \<and> highpassResonance (onmessage ids rnd (''set-highpass-resonance'', v) st) = 0.5
       \<and> combSpacing (onmessage ids rnd (''set-comb-spacing'', v) st) = 4
       \<and> pwmDuty (onmessage ids rnd (''set-pwm-duty'', v) st) = 0.32
       \<and> wavefolderFold (onmessage ids rnd (''set-wavefolder-fold'', v) st) = 2.5
       \<and> barberPoleDensity (onmessage ids rnd (''set-barberpole-density'', v) st) = 6
       \<and> barberPoleSpeed (onmessage ids rnd (''set-barberpole-speed'', v) st) = 3
       \<and> barberPoleQ (onmessage ids rnd (''set-barberpole-q'', v) st) = 2
       \<and> fallingProbability (onmessage ids rnd (''set-falling-probability'', v) st) = 0.1
       \<and> vowelMorph (onmessage ids rnd (''set-vowel-morph'', v) st) = 0.5
       \<and> vowelQ (onmessage ids rnd (''set-vowel-q'', v) st) = 12
       \<and> keyboardPitchRatio (onmessage ids rnd (''set-keyboard-pitch-ratio'', v) st) = 1
       \<and> nonzero_params (run_messages ids rnd msgs (new_processor wasm_ok))"
proof -
  have "baseFreq (onmessage ids rnd (''set-base-freq'', v) st) = 110"
    using assms by (simp add: onmessage_def messageHandlers_def number_or_falsy)
  moreover have "rate (lfo (onmessage ids rnd (''set-lfo-rate'', v) st)) = 1"
    using assms by (simp add: onmessage_def messageHandlers_def number_or_falsy setRate_def)
  moreover have "randomChangeRate (onmessage ids rnd (''set-random-change-rate'', v) st) = 2"
    using assms by (simp add: onmessage_def messageHandlers_def number_or_falsy)
  moreover have "lowpassCutoff (onmessage ids rnd (''set-lowpass-cutoff'', v) st) = 10"
    using assms by (simp add: onmessage_def messageHandlers_def number_or_falsy)
  moreover have "lowpassSlope (onmessage ids rnd (''set-lowpass-slope'', v) st) = 2"
    using assms by (simp add: onmessage_def messageHandlers_def number_or_falsy)
  moreover have "lowpassResonance (onmessage ids rnd (''set-lowpass-resonance'', v) st) = 0.5"
    using assms by (simp add: onmessage_def messageHandlers_def number_or_falsy)
  moreover have "highpassCutoff (onmessage ids rnd (''set-highpass-cutoff'', v) st) = 8"
    using assms by (simp add: onmessage_def messageHandlers_def number_or_falsy)
  moreover have "highpassSlope (onmessage ids rnd (''set-highpass-slope'', v) st) = 2"
    using assms by (simp add: onmessage_def messageHandlers_def number_or_falsy)
  moreover have "highpassResonance (onmessage ids rnd (''set-highpass-resonance'', v) st) = 0.5"
    using assms by (simp add: onmessage_def messageHandlers_def number_or_falsy)
  moreover have "combSpacing (onmessage ids rnd (''set-comb-spacing'', v) st) = 4"
    using assms by (simp add: onmessage_def messageHandlers_def number_or_falsy)
  moreover have "pwmDuty (onmessage ids rnd (''set-pwm-duty'', v) st) = 0.32"
    using assms by (simp add: onmessage_def messageHandlers_def number_or_falsy)
  moreover have "wavefolderFold (onmessage ids rnd (''set-wavefolder-fold'', v) st) = 2.5"
    using assms by (simp add: onmessage_def messageHandlers_def number_or_falsy)
  moreover have "barberPoleDensity (onmessage ids rnd (''set-barberpole-density'', v) st) = 6"
    using assms by (simp add: onmessage_def messageHandlers_def number_or_falsy)
  moreover have "barberPoleSpeed (onmessage ids rnd (''set-barberpole-speed'', v) st) = 3"
    using assms by (simp add: onmessage_def messageHandlers_def number_or_falsy)
  moreover have "barberPoleQ (onmessage ids rnd (''set-barberpole-q'', v) st) = 2"
    using assms by (simp add: onmessage_def messageHandlers_def number_or_falsy)
  moreover have "fallingProbability (onmessage ids rnd (''set-falling-probability'', v) st) = 0.1"
    using assms by (simp add: onmessage_def messageHandlers_def number_or_falsy)
  moreover have "vowelMorph (onmessage ids rnd (''set-vowel-morph'', v) st) = 0.5"
    using assms by (simp add: onmessage_def messageHandlers_def number_or_falsy)
  moreover have "vowelQ (onmessage ids rnd (''set-vowel-q'', v) st) = 12"
    using assms by (simp add: onmessage_def messageHandlers_def number_or_falsy)
  moreover have "keyboardPitchRatio (onmessage ids rnd (''set-keyboard-pitch-ratio'', v) st) = 1"
    using assms by (simp add: onmessage_def messageHandlers_def number_or_falsy)
  moreover have "nonzero_params (run_messages ids rnd msgs (new_processor wasm_ok))"
    by (rule run_messages_nonzero) (simp add: nonzero_params_def new_processor_def new_phase_accumulator_def)
  ultimately show ?thesis
    by (intro conjI)
qed

theorem falsy_payload_stores_default_witness:
  "falsy_number (JNum 0)
   \<and> baseFreq (onmessage [] (\<lambda>i. 0) (''set-base-freq'', JNum 0) (new_processor True)) = 110
   \<and> keyboardPitchRatio
        (onmessage [] (\<lambda>i. 0) (''set-keyboard-pitch-ratio'', JNum 0) (new_processor True)) = 1
   \<and> nonzero_params (run_messages [] (\<lambda>i. 0)
        [(''set-comb-spacing'', JNum 0), (''set-pwm-duty'', JNaN)] (new_processor True))"
proof -
  have h: "falsy_number (JNum 0)"
    by (simp add: falsy_number_def)
  from falsy_payload_stores_default [OF h, of "[]" "\<lambda>i. 0" "new_processor True"
      "[(''set-comb-spacing'', JNum 0), (''set-pwm-duty'', JNaN)]" True] h
  show ?thesis
    by blast
qed

section \<open>Properties of the immediate events\<close>









lemma length_store_section [simp]: "length (store_section buf a xs) = length buf"
  by (simp add: store_section_def)




















text \<open>
  The block leaves no change pending, as does the constructor: the hypothesis
  \<open>settled\<close> holds whenever a block has run since the last change message.
\<close>

lemma settled_new_processor: "settled (new_processor wasm_ok)"
  by (simp add: settled_def new_processor_def)

lemma settled_injectImmediateEvents:
  assumes "settled st \<or> needsImmediateEvent st"
  shows "settled (injectImmediateEvents currentSample sr st)"
  using assms by (auto simp: settled_def injectImmediateEvents_def Let_def)




text \<open>
  Where the modulators are defined, every call of \<open>Math.pow\<close> that they make is inside
  the domain of the function.
\<close>

lemma modulators_defined_pow:
  assumes "modulators_defined sr st i"
  shows "lowpassEnabled st \<longrightarrow>
           pow_defined (real (i + 1) / lowpassCutoff st) (2 * lowpassSlope st)"
    and "highpassEnabled st \<longrightarrow>
           pow_defined (real (i + 1) / highpassCutoff st) (2 * highpassSlope st)"
    and "barberPoleEnabled st \<longrightarrow> pow_defined (max 0 (cos x)) (barberPoleQ st)"
    and "pow_defined y 2"
  using assms by (auto simp: modulators_defined_def pow_defined_def max_def)
















end
